theory Spec2Isabelle
  imports Complex_Main
begin

section \<open>Laptop listing analysis: the loader, the cleaner and the category step\<close>

text \<open>
  The script \<^verbatim>\<open>scripts/laptop_analysis.py\<close> reads a CSV file into a pandas
  DataFrame (\<^verbatim>\<open>load_data\<close>), cleans it (\<^verbatim>\<open>clean_data\<close>) and tags every row
  with a category (\<^verbatim>\<open>analyze_categories\<close>).  The embedding follows the source
  statement by statement.  What the source delegates to pandas and to Python's
  built-in \<^verbatim>\<open>str\<close> and \<^verbatim>\<open>float\<close> is written out here as executable functions.

  Conventions of the embedding.
  \<^item> A Python string is the list of the bytes of its UTF-8 encoding.  ASCII text is
    modelled exactly.  The rupee sign U+20B9 is its three bytes.  Other non-ASCII
    text is carried along unchanged and is treated as never being a digit, a space
    or a letter with case, which Python's Unicode tables may contradict: a statement
    that says which characters of a string are digits or white space is made for
    strings that satisfy \<open>is_ascii\<close> only.
  \<^item> A number cell is the exact decimal value that was read (a rational); the
    rounding of \<^verbatim>\<open>float\<close> to binary64 and its overflow are not modelled.  A
    statement that gives the value of a parsed number exactly is made for integers
    up to \<open>2 ^ 53\<close> only, which \<^verbatim>\<open>float\<close> represents exactly.  Integers and
    floats of equal value are the same cell.  The two infinities and NaN are cells
    of their own; NaN is pandas' missing value.
  \<^item> A table is the list of its columns in order, each a name and the list of
    its cells.  A column has the object dtype of \<^verbatim>\<open>read_csv\<close> exactly when it
    holds a string or has no rows.
\<close>

subsection \<open>Characters and strings\<close>

definition rupee :: string where
  "rupee = [CHR 0xE2, CHR 0x82, CHR 0xB9]"


definition is_digit :: "char \<Rightarrow> bool" where
  "is_digit c = (c \<in> set ''0123456789'')"

definition digit_val :: "char \<Rightarrow> nat" where
  "digit_val c = of_char c - 48"

text \<open>The value of a string of decimal digits, most significant digit first.\<close>

definition dec_val :: "string \<Rightarrow> nat" where
  "dec_val ds = foldl (\<lambda>acc c. 10 * acc + digit_val c) 0 ds"

text \<open>\<^verbatim>\<open>str.lower\<close> on ASCII letters.\<close>

definition lower_char :: "char \<Rightarrow> char" where
  "lower_char c =
     (case map_of (zip ''ABCDEFGHIJKLMNOPQRSTUVWXYZ'' ''abcdefghijklmnopqrstuvwxyz'') c of
        Some d \<Rightarrow> d
      | None \<Rightarrow> c)"

definition lower :: "string \<Rightarrow> string" where
  "lower s = map lower_char s"

text \<open>
  The characters \<^verbatim>\<open>str.split()\<close> treats as separators (\<^verbatim>\<open>str.isspace\<close> on ASCII):
  tab, line feed, vertical tab, form feed, carriage return, the four separators
  0x1C to 0x1F, and the space.
\<close>

definition is_space :: "char \<Rightarrow> bool" where
  "is_space c = (c \<in> set [CHR 0x09, CHR 0x0A, CHR 0x0B, CHR 0x0C, CHR 0x0D,
                           CHR 0x1C, CHR 0x1D, CHR 0x1E, CHR 0x1F, CHR 0x20])"

text \<open>The characters \<^verbatim>\<open>float\<close> strips at both ends (C's \<^verbatim>\<open>isspace\<close>).\<close>

definition is_cspace :: "char \<Rightarrow> bool" where
  "is_cspace c = (c \<in> set [CHR 0x09, CHR 0x0A, CHR 0x0B, CHR 0x0C, CHR 0x0D, CHR 0x20])"

definition starts_with :: "string \<Rightarrow> string \<Rightarrow> bool" where
  "starts_with p s = (take (length p) s = p)"

text \<open>
  \<^verbatim>\<open>s.replace(old, new)\<close>: every occurrence of \<^verbatim>\<open>old\<close>, found from the left and
  not overlapping, becomes \<^verbatim>\<open>new\<close>.  With an empty \<^verbatim>\<open>old\<close> Python puts \<^verbatim>\<open>new\<close>
  before every character and at the end.
\<close>

function replace_all :: "string \<Rightarrow> string \<Rightarrow> string \<Rightarrow> string" where
  "replace_all old new s =
     (if s = [] then (if old = [] then new else [])
      else if old = [] then new @ hd s # replace_all old new (tl s)
      else if starts_with old s then new @ replace_all old new (drop (length old) s)
      else hd s # replace_all old new (tl s))"
  by pat_completeness auto
termination
  by (relation "measure (\<lambda>(old, new, s). length s)") auto

declare replace_all.simps [simp del]

text \<open>Substring test, as \<^verbatim>\<open>re.search\<close> of a literal pattern.\<close>

fun contains_str :: "string \<Rightarrow> string \<Rightarrow> bool" where
  "contains_str p [] = (p = [])"
| "contains_str p (c # cs) = (starts_with p (c # cs) \<or> contains_str p cs)"

text \<open>
  \<^verbatim>\<open>re.search(p1|p2|..., s, re.IGNORECASE)\<close> for literal alternatives: some
  alternative occurs in \<^verbatim>\<open>s\<close>, letters compared without case.
\<close>

definition search_icase :: "string list \<Rightarrow> string \<Rightarrow> bool" where
  "search_icase alts s = list_ex (\<lambda>p. contains_str (lower p) (lower s)) alts"

text \<open>
  \<^verbatim>\<open>re.search('(\d+)', s)\<close>: the first maximal run of decimal digits, if any.
\<close>

definition first_digits :: "string \<Rightarrow> string option" where
  "first_digits s =
     (let t = dropWhile (\<lambda>c. \<not> is_digit c) s
      in if t = [] then None else Some (takeWhile is_digit t))"

text \<open>\<^verbatim>\<open>s.split()\<close>: the maximal runs of characters that are not white space.\<close>

fun split_from :: "string \<Rightarrow> string \<Rightarrow> string list" where
  "split_from w [] = (if w = [] then [] else [w])"
| "split_from w (c # cs) =
     (if is_space c then (if w = [] then split_from [] cs else w # split_from [] cs)
      else split_from (w @ [c]) cs)"

definition py_split :: "string \<Rightarrow> string list" where
  "py_split s = split_from [] s"

subsection \<open>Cells and Python's \<^verbatim>\<open>float\<close>\<close>

datatype cell = is_Str: Str string | Num rat | PosInf | NegInf | NaN

text \<open>
  \<^verbatim>\<open>float(s)\<close> as CPython reads it.  An underscore is accepted only between two
  digits and is then dropped; white space is stripped at both ends; what remains
  is an optional sign followed by \<^verbatim>\<open>inf\<close>, \<^verbatim>\<open>infinity\<close> or \<^verbatim>\<open>nan\<close> in any
  case, or by a decimal number with an optional exponent.  \<open>None\<close> is the
  \<^verbatim>\<open>ValueError\<close> "could not convert string to float".
\<close>

fun us_ok :: "char \<Rightarrow> string \<Rightarrow> bool" where
  "us_ok prev [] = (prev \<noteq> CHR ''_'')"
| "us_ok prev (c # cs) =
     ((if c = CHR ''_'' then is_digit prev else (prev = CHR ''_'' \<longrightarrow> is_digit c))
      \<and> us_ok c cs)"

definition underscores_ok :: "string \<Rightarrow> bool" where
  "underscores_ok s = us_ok (CHR 0x00) s"

definition strip_cspace :: "string \<Rightarrow> string" where
  "strip_cspace s = rev (dropWhile is_cspace (rev (dropWhile is_cspace s)))"

definition split_sign :: "string \<Rightarrow> bool \<times> string" where
  "split_sign s =
     (case s of
        [] \<Rightarrow> (False, [])
      | c # cs \<Rightarrow>
          if c = CHR ''-'' then (True, cs)
          else if c = CHR ''+'' then (False, cs)
          else (False, s))"

definition scale10 :: "rat \<Rightarrow> int \<Rightarrow> rat" where
  "scale10 x e = (if 0 \<le> e then x * 10 ^ nat e else x / 10 ^ nat (- e))"

definition parse_exponent :: "string \<Rightarrow> int option" where
  "parse_exponent r =
     (case r of
        [] \<Rightarrow> Some 0
      | c # cs \<Rightarrow>
          if c = CHR ''e'' \<or> c = CHR ''E'' then
            (case split_sign cs of
               (neg, ds) \<Rightarrow>
                 if ds \<noteq> [] \<and> list_all is_digit ds
                 then Some (if neg then - int (dec_val ds) else int (dec_val ds))
                 else None)
          else None)"

definition parse_decimal :: "string \<Rightarrow> rat option" where
  "parse_decimal u =
     (let ip = takeWhile is_digit u;
          r1 = dropWhile is_digit u;
          fp = (case r1 of
                  [] \<Rightarrow> []
                | c # cs \<Rightarrow> if c = CHR ''.'' then takeWhile is_digit cs else []);
          r2 = (case r1 of
                  [] \<Rightarrow> []
                | c # cs \<Rightarrow> if c = CHR ''.'' then dropWhile is_digit cs else r1)
      in if ip = [] \<and> fp = [] then None
         else (case parse_exponent r2 of
                 None \<Rightarrow> None
               | Some e \<Rightarrow>
                   Some (scale10 (of_nat (dec_val ip)
                                  + of_nat (dec_val fp) / 10 ^ length fp) e)))"

definition parse_float :: "string \<Rightarrow> cell option" where
  "parse_float u =
     (case split_sign u of
        (neg, v) \<Rightarrow>
          if lower v = ''inf'' \<or> lower v = ''infinity''
          then Some (if neg then NegInf else PosInf)
          else if lower v = ''nan'' then Some NaN
          else (case parse_decimal v of
                  None \<Rightarrow> None
                | Some r \<Rightarrow> Some (Num (if neg then - r else r))))"

definition py_float :: "string \<Rightarrow> cell option" where
  "py_float s =
     (if underscores_ok s
      then parse_float (strip_cspace (filter (\<lambda>c. c \<noteq> CHR ''_'') s))
      else None)"

subsection \<open>Tables and the pandas operations the script calls\<close>

datatype error = KeyError string | AttributeError | ValueError

type_synonym column = "cell list"

type_synonym table = "(string \<times> column) list"

definition nrows :: "table \<Rightarrow> nat" where
  "nrows df = (case df of [] \<Rightarrow> 0 | p # _ \<Rightarrow> length (snd p))"

definition wf_table :: "table \<Rightarrow> bool" where
  "wf_table df = list_all (\<lambda>p. length (snd p) = nrows df) df"

text \<open>\<^verbatim>\<open>df[k]\<close>: all columns labelled \<^verbatim>\<open>k\<close>; none is a \<^verbatim>\<open>KeyError\<close>.\<close>

definition getitem :: "table \<Rightarrow> string \<Rightarrow> column list" where
  "getitem df k = map snd (filter (\<lambda>p. fst p = k) df)"

text \<open>
  The \<^verbatim>\<open>.str\<close> accessor of a Series raises \<^verbatim>\<open>AttributeError\<close> unless the
  values are strings (missing entries allowed) or there are none.
\<close>

definition str_accessor :: "column \<Rightarrow> error + column" where
  "str_accessor col =
     (if col = [] \<or> list_ex is_Str col then Inr col else Inl AttributeError)"

text \<open>
  \<^verbatim>\<open>df[k].str\<close>: a missing label is a \<^verbatim>\<open>KeyError\<close>; a label carried by several
  columns selects a DataFrame, which has no \<^verbatim>\<open>.str\<close>.
\<close>

definition series_str :: "table \<Rightarrow> string \<Rightarrow> error + column" where
  "series_str df k =
     (case getitem df k of
        [] \<Rightarrow> Inl (KeyError k)
      | [col] \<Rightarrow> str_accessor col
      | _ \<Rightarrow> Inl AttributeError)"

text \<open>
  \<^verbatim>\<open>df[k] = col\<close>: every column labelled \<^verbatim>\<open>k\<close> takes the new values; a new
  label is appended as the last column.
\<close>

definition setitem :: "table \<Rightarrow> string \<Rightarrow> column \<Rightarrow> table" where
  "setitem df k col =
     (if k \<in> set (map fst df)
      then map (\<lambda>p. if fst p = k then (k, col) else p) df
      else df @ [(k, col)])"

text \<open>A string method applied through \<^verbatim>\<open>.str\<close>: entries that are not strings give NaN.\<close>

definition str_map :: "(string \<Rightarrow> cell) \<Rightarrow> column \<Rightarrow> column" where
  "str_map f col = map (\<lambda>c. case c of Str s \<Rightarrow> f s | _ \<Rightarrow> NaN) col"

definition str_replace :: "string \<Rightarrow> string \<Rightarrow> column \<Rightarrow> column" where
  "str_replace old new col = str_map (\<lambda>s. Str (replace_all old new s)) col"

definition str_extract_digits :: "column \<Rightarrow> column" where
  "str_extract_digits col =
     str_map (\<lambda>s. case first_digits s of None \<Rightarrow> NaN | Some ds \<Rightarrow> Str ds) col"

text \<open>\<^verbatim>\<open>.astype(float)\<close>: fails as a whole on the first string \<^verbatim>\<open>float\<close> rejects.\<close>

definition to_float :: "cell \<Rightarrow> cell option" where
  "to_float c = (case c of Str s \<Rightarrow> py_float s | _ \<Rightarrow> Some c)"

fun astype_float :: "column \<Rightarrow> error + column" where
  "astype_float [] = Inr []"
| "astype_float (c # cs) =
     (case to_float c of
        None \<Rightarrow> Inl ValueError
      | Some v \<Rightarrow>
          (case astype_float cs of
             Inl e \<Rightarrow> Inl e
           | Inr vs \<Rightarrow> Inr (v # vs)))"

text \<open>\<^verbatim>\<open>.str.split()\<close> gives a list per string; \<^verbatim>\<open>.str[0]\<close> its first element, NaN if there is none.\<close>

definition str_split :: "column \<Rightarrow> string list option list" where
  "str_split col = map (\<lambda>c. case c of Str s \<Rightarrow> Some (py_split s) | _ \<Rightarrow> None) col"

definition str_get0 :: "string list option list \<Rightarrow> column" where
  "str_get0 xs = map (\<lambda>x. case x of Some (w # _) \<Rightarrow> Str w | _ \<Rightarrow> NaN) xs"

text \<open>\<^verbatim>\<open>Series.replace(mapping)\<close>: a value equal to a key becomes the key's value.\<close>

definition replace_values :: "(string \<times> string) list \<Rightarrow> column \<Rightarrow> column" where
  "replace_values m col =
     map (\<lambda>c. case c of
                 Str s \<Rightarrow> (case map_of m s of Some v \<Rightarrow> Str v | None \<Rightarrow> Str s)
               | _ \<Rightarrow> c) col"

definition fillna0 :: "column \<Rightarrow> column" where
  "fillna0 col = map (\<lambda>c. if c = NaN then Num 0 else c) col"

definition isna :: "cell \<Rightarrow> bool" where
  "isna c = (c = NaN)"

definition is_number :: "cell \<Rightarrow> bool" where
  "is_number c = (case c of Num _ \<Rightarrow> True | PosInf \<Rightarrow> True | NegInf \<Rightarrow> True | _ \<Rightarrow> False)"

subsection \<open>\<^verbatim>\<open>clean_data\<close>\<close>

text \<open>Lines 59 to 64: the price column.\<close>

definition clean_price :: "table \<Rightarrow> error + table" where
  "clean_price df =
     (case series_str df ''Price'' of
        Inl e \<Rightarrow> Inl e
      | Inr c0 \<Rightarrow>
          (case str_accessor (str_replace rupee [] c0) of
             Inl e \<Rightarrow> Inl e
           | Inr c1 \<Rightarrow>
               (case astype_float (str_replace '','' [] c1) of
                  Inl e \<Rightarrow> Inl e
                | Inr c2 \<Rightarrow> Inr (setitem df ''Price'' c2))))"

text \<open>Lines 67 and 68: the loop over \<^verbatim>\<open>['Ram', 'SSD']\<close>.\<close>

definition extract_numeric :: "string \<Rightarrow> table \<Rightarrow> error + table" where
  "extract_numeric col df =
     (case series_str df col of
        Inl e \<Rightarrow> Inl e
      | Inr c0 \<Rightarrow>
          (case astype_float (str_extract_digits c0) of
             Inl e \<Rightarrow> Inl e
           | Inr c1 \<Rightarrow> Inr (setitem df col c1)))"

fun extract_loop :: "string list \<Rightarrow> table \<Rightarrow> error + table" where
  "extract_loop [] df = Inr df"
| "extract_loop (col # cols) df =
     (case extract_numeric col df of
        Inl e \<Rightarrow> Inl e
      | Inr df' \<Rightarrow> extract_loop cols df')"

text \<open>Lines 71 to 75: the column labels.\<close>

definition normalize_name :: "string \<Rightarrow> string" where
  "normalize_name n = replace_all '' '' ''_'' (lower n)"

definition normalize_columns :: "table \<Rightarrow> error + table" where
  "normalize_columns df = Inr (map (\<lambda>p. (normalize_name (fst p), snd p)) df)"

text \<open>Line 78: the missing ratings.\<close>

definition fill_rating :: "table \<Rightarrow> error + table" where
  "fill_rating df =
     (case getitem df ''rating'' of
        [] \<Rightarrow> Inl (KeyError ''rating'')
      | _ \<Rightarrow> Inr (map (\<lambda>p. if fst p = ''rating'' then (fst p, fillna0 (snd p)) else p) df))"

text \<open>Lines 81 to 88: the brand.\<close>

definition brand_mapping :: "(string \<times> string) list" where
  "brand_mapping =
     [(''Apple'', ''Apple''), (''HP'', ''HP''), (''Lenovo'', ''Lenovo''),
      (''Dell'', ''Dell''), (''Asus'', ''Asus''), (''Acer'', ''Acer''),
      (''MSI'', ''MSI''), (''Samsung'', ''Samsung''), (''Xiaomi'', ''Xiaomi''),
      (''Honor'', ''Honor''), (''Huawei'', ''Huawei'')]"

definition derive_brand :: "table \<Rightarrow> error + table" where
  "derive_brand df =
     (case series_str df ''model'' of
        Inl e \<Rightarrow> Inl e
      | Inr c0 \<Rightarrow>
          Inr (map (\<lambda>p. if fst p = ''brand''
                         then (fst p, replace_values brand_mapping (snd p)) else p)
                 (setitem df ''brand'' (str_get0 (str_split c0)))))"

text \<open>
  The statements of the body, in order.  Each one reads the table and either raises
  or gives the table after the assignment.
\<close>

definition clean_steps :: "(table \<Rightarrow> error + table) list" where
  "clean_steps =
     [clean_price, extract_loop [''Ram'', ''SSD''], normalize_columns, fill_rating, derive_brand]"

fun run_steps :: "(table \<Rightarrow> error + table) list \<Rightarrow> table \<Rightarrow> error + table" where
  "run_steps [] df = Inr df"
| "run_steps (f # fs) df =
     (case f df of
        Inl e \<Rightarrow> Inl e
      | Inr df' \<Rightarrow> run_steps fs df')"

text \<open>The cleaned table as a function of the raw one.\<close>

definition clean_table :: "table \<Rightarrow> error + table" where
  "clean_table df = run_steps clean_steps df"

text \<open>
  DataFrames are objects: a variable holds a reference.  The heap is the list of
  the tables allocated so far, a reference is a position in it.  A statement
  \<^verbatim>\<open>df[...] = ...\<close> updates the table at the reference in place; a statement
  that raises leaves the heap as the statements before it made it.
\<close>

type_synonym heap = "table list"

fun exec_at :: "nat \<Rightarrow> (table \<Rightarrow> error + table) list \<Rightarrow> heap \<Rightarrow> heap \<times> error option" where
  "exec_at a [] h = (h, None)"
| "exec_at a (f # fs) h =
     (case f (h ! a) of
        Inl e \<Rightarrow> (h, Some e)
      | Inr t \<Rightarrow> exec_at a fs (h[a := t]))"

text \<open>
  \<^verbatim>\<open>clean_data(df)\<close>: line 56 allocates the copy \<^verbatim>\<open>clean_df\<close>, the statements
  update it in place, line 91 returns the reference to it.
\<close>

definition clean_data :: "heap \<Rightarrow> nat \<Rightarrow> heap \<times> (error + nat)" where
  "clean_data h df =
     (let clean_df = length h;
          h0 = h @ [h ! df]
      in case exec_at clean_df clean_steps h0 of
           (h', Some e) \<Rightarrow> (h', Inl e)
         | (h', None) \<Rightarrow> (h', Inr clean_df))"

subsection \<open>\<^verbatim>\<open>analyze_categories\<close>\<close>

text \<open>
  \<^verbatim>\<open>df[k].str.contains(pat, case=False)\<close> gives True, False or NaN per row;
  \<^verbatim>\<open>df.loc[mask, ...]\<close> raises \<^verbatim>\<open>ValueError\<close> for a mask with a NaN in it.
  This is the behaviour of object columns in pandas 1 and 2; the script pins no
  version.
\<close>

definition str_contains :: "string list \<Rightarrow> column \<Rightarrow> bool option list" where
  "str_contains alts col =
     map (\<lambda>c. case c of Str s \<Rightarrow> Some (search_icase alts s) | _ \<Rightarrow> None) col"

fun bool_mask :: "bool option list \<Rightarrow> error + bool list" where
  "bool_mask [] = Inr []"
| "bool_mask (x # xs) =
     (case x of
        None \<Rightarrow> Inl ValueError
      | Some b \<Rightarrow>
          (case bool_mask xs of
             Inl e \<Rightarrow> Inl e
           | Inr bs \<Rightarrow> Inr (b # bs)))"

text \<open>
  \<^verbatim>\<open>df.loc[mask, k] = v\<close>: the rows selected by the mask take \<^verbatim>\<open>v\<close> in every column
  labelled \<^verbatim>\<open>k\<close>; a new label is appended with NaN in the other rows.
\<close>

definition loc_set :: "table \<Rightarrow> bool list \<Rightarrow> string \<Rightarrow> cell \<Rightarrow> table" where
  "loc_set df msk k v =
     (if k \<in> set (map fst df)
      then map (\<lambda>p. if fst p = k
                     then (k, map (\<lambda>(b, c). if b then v else c) (zip msk (snd p)))
                     else p) df
      else df @ [(k, map (\<lambda>b. if b then v else NaN) msk)])"

text \<open>Line 185.\<close>

definition set_general :: "table \<Rightarrow> error + table" where
  "set_general df = Inr (setitem df ''category'' (replicate (nrows df) (Str ''General'')))"

text \<open>Lines 186 and 188.\<close>

definition tag_contains :: "string list \<Rightarrow> string \<Rightarrow> table \<Rightarrow> error + table" where
  "tag_contains alts label df =
     (case series_str df ''model'' of
        Inl e \<Rightarrow> Inl e
      | Inr c \<Rightarrow>
          (case bool_mask (str_contains alts c) of
             Inl e \<Rightarrow> Inl e
           | Inr msk \<Rightarrow> Inr (loc_set df msk ''category'' (Str label))))"

text \<open>
  Line 187.  The comparison of a Series with \<^verbatim>\<open>'Apple'\<close> is False on every entry
  that is not that string.  A label carried by several columns gives a
  two-dimensional mask, which \<^verbatim>\<open>df.loc\<close> rejects with a \<^verbatim>\<open>KeyError\<close>.
\<close>

definition tag_apple :: "table \<Rightarrow> error + table" where
  "tag_apple df =
     (case getitem df ''brand'' of
        [] \<Rightarrow> Inl (KeyError ''brand'')
      | [c] \<Rightarrow> Inr (loc_set df (map (\<lambda>x. x = Str ''Apple'') c) ''category'' (Str ''Apple''))
      | _ \<Rightarrow> Inl (KeyError ''brand''))"

definition category_steps :: "(table \<Rightarrow> error + table) list" where
  "category_steps =
     [set_general,
      tag_contains [''Gaming''] ''Gaming'',
      tag_apple,
      tag_contains [''Ultrabook'', ''Thin'', ''Slim''] ''Ultrabook'']"

text \<open>The table after the four statements, as a function of the table before.\<close>

definition categorize :: "table \<Rightarrow> error + table" where
  "categorize df = run_steps category_steps df"

text \<open>
  \<^verbatim>\<open>analyze_categories(df)\<close>, lines 185 to 188: the statements update the table
  the caller passed, and nothing is returned.  The printing and the chart that
  follow (lines 190 to 200) do not change the table and are left out; the second
  component of the result is the exception raised by lines 185 to 188, if any.
\<close>

definition analyze_categories :: "heap \<Rightarrow> nat \<Rightarrow> heap \<times> error option" where
  "analyze_categories h df = exec_at df category_steps h"

subsection \<open>\<^verbatim>\<open>load_data\<close>\<close>

text \<open>
  What \<^verbatim>\<open>pd.read_csv\<close> does with a path depends on the file system and is a
  parameter: it gives a table or raises.  An exception carries its class and the
  text \<^verbatim>\<open>str(e)\<close>.  \<^verbatim>\<open>KeyboardInterrupt\<close> and \<^verbatim>\<open>SystemExit\<close> do not derive from
  \<^verbatim>\<open>Exception\<close>; the other classes do.
\<close>

datatype exn_class =
    FileNotFoundError | PermissionError | IsADirectoryError
  | UnicodeDecodeError | ParserError | EmptyDataError
  | OtherException | KeyboardInterrupt | SystemExit

record exn =
  cls :: exn_class
  text_of :: string

fun derives_Exception :: "exn_class \<Rightarrow> bool" where
  "derives_Exception KeyboardInterrupt = False"
| "derives_Exception SystemExit = False"
| "derives_Exception _ = True"

definition digit_char :: "nat \<Rightarrow> char" where
  "digit_char d = ''0123456789'' ! d"

fun show_nat :: "nat \<Rightarrow> string" where
  "show_nat n = (if n < 10 then [digit_char n] else show_nat (n div 10) @ [digit_char (n mod 10)])"

declare show_nat.simps [simp del]

definition ok_mark :: string where
  "ok_mark = [CHR 0xE2, CHR 0x9C, CHR 0x85]"

definition fail_mark :: string where
  "fail_mark = [CHR 0xE2, CHR 0x9D, CHR 0x8C]"

text \<open>
  The result is what the caller gets back (\<open>None\<close> is Python's \<^verbatim>\<open>None\<close>) together
  with the line printed; \<open>Inl\<close> is an exception that leaves the function.
\<close>

definition load_data ::
  "(string \<Rightarrow> exn + table) \<Rightarrow> string \<Rightarrow> exn + (table option \<times> string)" where
  "load_data read_csv file_path =
     (case read_csv file_path of
        Inr df \<Rightarrow>
          Inr (Some df,
               ok_mark @ '' Dataset cargado correctamente. Filas: '' @ show_nat (nrows df))
      | Inl e \<Rightarrow>
          if derives_Exception (cls e)
          then Inr (None, fail_mark @ '' Error al cargar '' @ file_path @ '': '' @ text_of e)
          else Inl e)"

subsection \<open>Example tables\<close>

definition listing1 :: table where
  "listing1 =
     [(''Price'', [Str (rupee @ ''12,345'')]), (''Ram'', [Str ''8 GB'']),
      (''SSD'', [Str ''256 GB SSD'']), (''Rating'', [Num (9 / 2)]),
      (''Model'', [Str ''HP Pavilion Gaming 15''])]"

definition cleaned1 :: table where
  "cleaned1 =
     [(''price'', [Num 12345]), (''ram'', [Num 8]), (''ssd'', [Num 256]),
      (''rating'', [Num (9 / 2)]), (''model'', [Str ''HP Pavilion Gaming 15'']),
      (''brand'', [Str ''HP''])]"

definition listing2 :: table where
  "listing2 =
     [(''Price'', [Str (rupee @ ''54,999''), Str (rupee @ ''1,20,000'')]),
      (''Ram'', [Str ''16 GB'', Str ''N/A'']),
      (''SSD'', [Str ''512GB'', Str ''256 GB SSD'']),
      (''Rating'', [NaN, Num 0]),
      (''Model'', [Str ''Apple MacBook Air Ultrabook'', Str '' ''])]"

definition cleaned2 :: table where
  "cleaned2 =
     [(''price'', [Num 54999, Num 120000]), (''ram'', [Num 16, NaN]),
      (''ssd'', [Num 512, Num 256]), (''rating'', [Num 0, Num 0]),
      (''model'', [Str ''Apple MacBook Air Ultrabook'', Str '' '']),
      (''brand'', [Str ''Apple'', NaN])]"

definition listing3 :: table where
  "listing3 =
     [(''Price'', [Str (rupee @ ''54,999''), Str ''On request'']),
      (''Ram'', [Str ''16 GB'', Str ''8 GB'']),
      (''SSD'', [Str ''512GB'', Str ''256 GB SSD'']),
      (''Rating'', [Num 4, Num 0]),
      (''Model'', [Str ''Dell Inspiron Thin'', Str ''Acer Aspire 7''])]"

definition listing4 :: table where
  "listing4 =
     [(''price'', [Str (rupee @ ''54,999'')]), (''Ram'', [Str ''16 GB'']),
      (''SSD'', [Str ''512GB'']), (''Rating'', [Num 4]),
      (''Model'', [Str ''Lenovo IdeaPad Slim 3''])]"

definition listing5 :: table where
  "listing5 =
     [(''Price'', [Str (rupee @ ''54,999'')]), (''Ram'', [Str ''16 GB'']),
      (''SSD'', [Str ''512GB'']), (''RATING'', [NaN]),
      (''MoDeL'', [Str ''Lenovo IdeaPad Slim 3'']), (''Core Type'', [Str ''i5''])]"

definition cleaned5 :: table where
  "cleaned5 =
     [(''price'', [Num 54999]), (''ram'', [Num 16]), (''ssd'', [Num 512]),
      (''rating'', [Num 0]), (''model'', [Str ''Lenovo IdeaPad Slim 3'']),
      (''core_type'', [Str ''i5'']), (''brand'', [Str ''Lenovo''])]"

definition listing6 :: table where
  "listing6 =
     [(''Price'', [Str (rupee @ ''99,990'')]), (''Ram'', [Str ''16 GB'']),
      (''SSD'', [Str ''1 TB'']), (''Rating'', [Num 4]),
      (''Model'', [Str ''Apple Gaming Slim''])]"

definition cleaned6 :: table where
  "cleaned6 =
     [(''price'', [Num 99990]), (''ram'', [Num 16]), (''ssd'', [Num 1]), (''rating'', [Num 4]),
      (''model'', [Str ''Apple Gaming Slim'']), (''brand'', [Str ''Apple''])]"

definition tagged6 :: table where
  "tagged6 = cleaned6 @ [(''category'', [Str ''Ultrabook''])]"

definition cleaned7 :: table where
  "cleaned7 =
     [(''model'', [Str ''HP Gaming 15'', Str ''Apple GAMING'',
                   Str ''Asus Gaming slim'', Str ''Dell 15'']),
      (''brand'', [Str ''HP'', Str ''Apple'', Str ''Asus'', Str ''Dell''])]"

definition tagged7 :: table where
  "tagged7 =
     cleaned7 @ [(''category'', [Str ''Gaming'', Str ''Apple'', Str ''Ultrabook'', Str ''General''])]"

definition read_csv1 :: "string \<Rightarrow> exn + table" where
  "read_csv1 path =
     (if path = ''data/laptop.csv'' then Inr listing2
      else Inl \<lparr>cls = FileNotFoundError,
                text_of = ''[Errno 2] No such file or directory: '' @ path\<rparr>)"

section \<open>Properties\<close>

subsection \<open>Strings\<close>

lemma replace_all_Nil [simp]: "replace_all old new [] = (if old = [] then new else [])"
  by (simp add: replace_all.simps)

lemma replace_all_Cons [simp]:
  "replace_all old new (c # cs) =
     (if old = [] then new @ c # replace_all old new cs
      else if starts_with old (c # cs) then new @ replace_all old new (drop (length old) (c # cs))
      else c # replace_all old new cs)"
  by (subst replace_all.simps) simp

lemma replace_all_single: "replace_all [c] [] s = filter (\<lambda>x. x \<noteq> c) s"
  by (induction s) (auto simp: starts_with_def)

lemma replace_all_absent: "old \<noteq> [] \<Longrightarrow> hd old \<notin> set s \<Longrightarrow> replace_all old new s = s"
proof (induction s)
  case Nil
  then show ?case by simp
next
  case (Cons c cs)
  then have "\<not> starts_with old (c # cs)"
    by (cases old) (auto simp: starts_with_def)
  with Cons show ?case by simp
qed

lemma replace_all_prefix:
  "old \<noteq> [] \<Longrightarrow> replace_all old new (old @ s) = new @ replace_all old new s"
  by (cases old) (simp_all add: starts_with_def)

lemma is_digit_iff:
  "is_digit c \<longleftrightarrow>
     c = CHR ''0'' \<or> c = CHR ''1'' \<or> c = CHR ''2'' \<or> c = CHR ''3'' \<or> c = CHR ''4'' \<or>
     c = CHR ''5'' \<or> c = CHR ''6'' \<or> c = CHR ''7'' \<or> c = CHR ''8'' \<or> c = CHR ''9''"
  by (simp add: is_digit_def)

lemma is_digit_facts:
  assumes "is_digit c"
  shows "c \<noteq> CHR ''_''" "c \<noteq> CHR ''-''" "c \<noteq> CHR ''+''"
    "c \<noteq> CHR ''i''" "c \<noteq> CHR ''n''" "c \<noteq> CHR '',''" "c \<noteq> CHR 0xE2" "c \<noteq> CHR ''.''"
  using assms unfolding is_digit_iff by auto

lemma is_digit_not_cspace: "is_digit c \<Longrightarrow> \<not> is_cspace c"
  unfolding is_digit_iff is_cspace_def by auto

lemma is_digit_lower: "is_digit c \<Longrightarrow> lower_char c = c"
  unfolding is_digit_iff by (elim disjE) (simp_all add: lower_char_def)

lemma dropWhile_hd: "xs \<noteq> [] \<Longrightarrow> \<not> P (hd xs) \<Longrightarrow> dropWhile P xs = xs"
  by (cases xs) simp_all

subsection \<open>\<^verbatim>\<open>float\<close> on a run of digits\<close>

lemma us_ok_digits: "list_all is_digit ds \<Longrightarrow> prev \<noteq> CHR ''_'' \<Longrightarrow> us_ok prev ds"
proof (induction ds arbitrary: prev)
  case Nil
  then show ?case by simp
next
  case (Cons c cs)
  then have "is_digit c" by simp
  then have "c \<noteq> CHR ''_''" by (rule is_digit_facts)
  with Cons show ?case by simp
qed

lemma strip_cspace_id:
  assumes "s \<noteq> []" "\<not> is_cspace (hd s)" "\<not> is_cspace (last s)"
  shows "strip_cspace s = s"
proof -
  have a: "dropWhile is_cspace s = s" using assms(1,2) by (rule dropWhile_hd)
  have "rev s \<noteq> []" "\<not> is_cspace (hd (rev s))" using assms(1,3) by (simp_all add: hd_rev)
  then have b: "dropWhile is_cspace (rev s) = rev s" by (rule dropWhile_hd)
  show ?thesis unfolding strip_cspace_def a b by simp
qed

lemma py_float_digits:
  assumes "ds \<noteq> []" and "list_all is_digit ds"
  shows "py_float ds = Some (Num (of_nat (dec_val ds)))"
proof -
  have all: "\<forall>c\<in>set ds. is_digit c" using assms(2) by (simp add: list_all_iff)
  have hd: "is_digit (hd ds)" and lst: "is_digit (last ds)" using assms(1) all by simp_all
  have f: "filter (\<lambda>c. c \<noteq> CHR ''_'') ds = ds"
    using all is_digit_facts(1) by (simp add: filter_id_conv)
  have u: "underscores_ok ds"
    unfolding underscores_ok_def using assms(2) by (rule us_ok_digits) simp
  have s: "strip_cspace ds = ds"
    using assms(1) hd lst by (intro strip_cspace_id is_digit_not_cspace)
  have sg: "split_sign ds = (False, ds)"
    using assms(1) hd is_digit_facts(2,3)[OF hd] by (cases ds) (simp_all add: split_sign_def)
  have lw: "lower ds = ds"
    unfolding lower_def using all by (intro map_idI) (simp add: is_digit_lower)
  have ne: "ds \<noteq> ''inf''" "ds \<noteq> ''infinity''" "ds \<noteq> ''nan''"
    using is_digit_facts(4,5)[OF hd] by (cases ds; simp)+
  have tw: "takeWhile is_digit ds = ds" "dropWhile is_digit ds = []"
    using all by simp_all
  have pd: "parse_decimal ds = Some (of_nat (dec_val ds))"
    using assms(1) by (simp add: parse_decimal_def tw parse_exponent_def scale10_def dec_val_def)
  show ?thesis
    using u ne by (simp add: py_float_def f s parse_float_def sg lw pd)
qed

subsection \<open>Columns and tables\<close>

lemma astype_float_Inr:
  "astype_float col = Inr col' \<Longrightarrow>
     length col' = length col \<and> (\<forall>i<length col. to_float (col ! i) = Some (col' ! i))"
proof (induction col arbitrary: col')
  case Nil
  then show ?case by simp
next
  case (Cons c cs)
  from Cons.prems obtain v vs where v: "to_float c = Some v" and vs: "astype_float cs = Inr vs"
    and col': "col' = v # vs"
    by (auto split: option.splits sum.splits)
  from Cons.IH[OF vs] show ?case
    using v col' by (auto simp: nth_Cons')
qed

lemma astype_float_Inl:
  "astype_float col = Inl e \<longleftrightarrow> e = ValueError \<and> (\<exists>c\<in>set col. to_float c = None)"
  by (induction col) (auto split: option.splits sum.splits)

lemma astype_float_total:
  "(\<forall>c\<in>set col. to_float c \<noteq> None) \<Longrightarrow> \<exists>col'. astype_float col = Inr col'"
  by (cases "astype_float col") (auto simp: astype_float_Inl)

lemma getitem_Nil_iff: "getitem df k = [] \<longleftrightarrow> k \<notin> set (map fst df)"
  by (auto simp: getitem_def filter_empty_conv)

lemma getitem_single:
  assumes "getitem df k = [c]" "j < length df" "fst (df ! j) = k"
  shows "snd (df ! j) = c"
proof -
  have "df ! j \<in> set (filter (\<lambda>p. fst p = k) df)" using assms(2,3) by simp
  then have "snd (df ! j) \<in> set (getitem df k)" unfolding getitem_def by (simp only: set_map image_eqI)
  then show ?thesis using assms(1) by simp
qed

lemma setitem_nth:
  "j < length df \<Longrightarrow> setitem df k c ! j = (if fst (df ! j) = k then (k, c) else df ! j)"
  using nth_mem[of j df] by (auto simp: setitem_def nth_append)

lemma setitem_length_present:
  "k \<in> set (map fst df) \<Longrightarrow> length (setitem df k c) = length df"
  by (simp add: setitem_def)

lemma setitem_length: "length df \<le> length (setitem df k c)"
  by (simp add: setitem_def)

lemma setitem_names_present:
  "k \<in> set (map fst df) \<Longrightarrow> map fst (setitem df k c) = map fst df"
  by (auto simp: setitem_def)

lemma series_str_Inr:
  "series_str df k = Inr c \<Longrightarrow> getitem df k = [c] \<and> (c = [] \<or> list_ex is_Str c)"
  by (auto simp: series_str_def str_accessor_def split: list.splits if_splits)

lemma name_facts:
  "normalize_name ''Price'' = ''price''" "normalize_name ''Ram'' = ''ram''"
  "normalize_name ''SSD'' = ''ssd''"
  by (simp_all add: normalize_name_def lower_def lower_char_def starts_with_def)

lemma clean_price_Inr:
  assumes "clean_price df = Inr df'"
  shows "length df' = length df"
    and "map fst df' = map fst df"
    and "''Price'' \<in> set (map fst df)"
    and "\<And>j. j < length df \<Longrightarrow> fst (df ! j) \<noteq> ''Price'' \<Longrightarrow> df' ! j = df ! j"
    and "\<And>j. j < length df \<Longrightarrow> fst (df ! j) = ''Price'' \<Longrightarrow>
           str_accessor (snd (df ! j)) = Inr (snd (df ! j)) \<and>
           astype_float (str_replace '','' [] (str_replace rupee [] (snd (df ! j))))
             = Inr (snd (df' ! j))"
proof -
  from assms obtain c0 c1 c2 where
    c0: "series_str df ''Price'' = Inr c0"
    and c1: "str_accessor (str_replace rupee [] c0) = Inr c1"
    and c2: "astype_float (str_replace '','' [] c1) = Inr c2"
    and df': "df' = setitem df ''Price'' c2"
    by (auto simp: clean_price_def split: sum.splits)
  from series_str_Inr[OF c0] have g: "getitem df ''Price'' = [c0]"
    and ok: "c0 = [] \<or> list_ex is_Str c0" by simp_all
  from g show p: "''Price'' \<in> set (map fst df)"
    using getitem_Nil_iff[of df "''Price''"] by simp
  show "length df' = length df" using p df' by (simp add: setitem_length_present)
  show "map fst df' = map fst df" using p df' by (simp add: setitem_names_present)
  show "\<And>j. j < length df \<Longrightarrow> fst (df ! j) \<noteq> ''Price'' \<Longrightarrow> df' ! j = df ! j"
    using df' by (simp add: setitem_nth)
  have c1': "c1 = str_replace rupee [] c0"
    using c1 by (simp add: str_accessor_def split: if_splits)
  show "\<And>j. j < length df \<Longrightarrow> fst (df ! j) = ''Price'' \<Longrightarrow>
           str_accessor (snd (df ! j)) = Inr (snd (df ! j)) \<and>
           astype_float (str_replace '','' [] (str_replace rupee [] (snd (df ! j))))
             = Inr (snd (df' ! j))"
  proof -
    fix j assume j: "j < length df" "fst (df ! j) = ''Price''"
    then have "snd (df ! j) = c0" using g by (intro getitem_single)
    then show "str_accessor (snd (df ! j)) = Inr (snd (df ! j)) \<and>
           astype_float (str_replace '','' [] (str_replace rupee [] (snd (df ! j))))
             = Inr (snd (df' ! j))"
      using c2 c1' df' j ok by (simp add: setitem_nth str_accessor_def)
  qed
qed

lemma extract_numeric_Inr:
  assumes "extract_numeric k df = Inr df'"
  shows "length df' = length df"
    and "map fst df' = map fst df"
    and "k \<in> set (map fst df)"
    and "\<And>j. j < length df \<Longrightarrow> fst (df ! j) \<noteq> k \<Longrightarrow> df' ! j = df ! j"
    and "\<And>j. j < length df \<Longrightarrow> fst (df ! j) = k \<Longrightarrow>
           str_accessor (snd (df ! j)) = Inr (snd (df ! j)) \<and>
           astype_float (str_extract_digits (snd (df ! j))) = Inr (snd (df' ! j))"
proof -
  from assms obtain c0 c1 where
    c0: "series_str df k = Inr c0"
    and c1: "astype_float (str_extract_digits c0) = Inr c1"
    and df': "df' = setitem df k c1"
    by (auto simp: extract_numeric_def split: sum.splits)
  from series_str_Inr[OF c0] have g: "getitem df k = [c0]"
    and ok: "c0 = [] \<or> list_ex is_Str c0" by simp_all
  from g show p: "k \<in> set (map fst df)"
    using getitem_Nil_iff[of df k] by simp
  show "length df' = length df" using p df' by (simp add: setitem_length_present)
  show "map fst df' = map fst df" using p df' by (simp add: setitem_names_present)
  show "\<And>j. j < length df \<Longrightarrow> fst (df ! j) \<noteq> k \<Longrightarrow> df' ! j = df ! j"
    using df' by (simp add: setitem_nth)
  show "\<And>j. j < length df \<Longrightarrow> fst (df ! j) = k \<Longrightarrow>
           str_accessor (snd (df ! j)) = Inr (snd (df ! j)) \<and>
           astype_float (str_extract_digits (snd (df ! j))) = Inr (snd (df' ! j))"
  proof -
    fix j assume j: "j < length df" "fst (df ! j) = k"
    then have "snd (df ! j) = c0" using g by (intro getitem_single)
    then show "str_accessor (snd (df ! j)) = Inr (snd (df ! j)) \<and>
           astype_float (str_extract_digits (snd (df ! j))) = Inr (snd (df' ! j))"
      using c1 df' j ok by (simp add: setitem_nth str_accessor_def)
  qed
qed

lemma fill_rating_Inr:
  assumes "fill_rating df = Inr df'"
  shows "df' = map (\<lambda>p. if fst p = ''rating'' then (fst p, fillna0 (snd p)) else p) df"
    and "''rating'' \<in> set (map fst df)"
  using assms getitem_Nil_iff[of df "''rating''"]
  by (auto simp: fill_rating_def split: list.splits)

lemma derive_brand_Inr:
  assumes "derive_brand df = Inr df'"
  obtains m where "getitem df ''model'' = [m]" "m = [] \<or> list_ex is_Str m"
    "df' = map (\<lambda>p. if fst p = ''brand''
                         then (fst p, replace_values brand_mapping (snd p)) else p)
                 (setitem df ''brand'' (str_get0 (str_split m)))"
  using assms series_str_Inr[of df "''model''"]
  by (auto simp: derive_brand_def split: sum.splits)

lemma clean_table_Inr:
  assumes "clean_table df = Inr df'"
  obtains d1 d3 d4 d5 where
    "clean_price df = Inr d1"
    "extract_loop [''Ram'', ''SSD''] d1 = Inr d3"
    "normalize_columns d3 = Inr d4"
    "fill_rating d4 = Inr d5"
    "derive_brand d5 = Inr df'"
  using assms by (auto simp: clean_table_def clean_steps_def split: sum.splits)

lemma extract_loop_Inr:
  assumes "extract_loop [''Ram'', ''SSD''] df = Inr df'"
  obtains d2 where "extract_numeric ''Ram'' df = Inr d2" "extract_numeric ''SSD'' d2 = Inr df'"
  using assms by (auto split: sum.splits)

text \<open>What each column of the cleaned table is, by its position in the raw table.\<close>

lemma clean_table_columns:
  assumes ok: "clean_table df = Inr df'" and j: "j < length df"
  shows "length df \<le> length df'"
    and "fst (df' ! j) = normalize_name (fst (df ! j))"
    and "fst (df ! j) = ''Price'' \<Longrightarrow>
           astype_float (str_replace '','' [] (str_replace rupee [] (snd (df ! j))))
             = Inr (snd (df' ! j))"
    and "fst (df ! j) = ''Ram'' \<or> fst (df ! j) = ''SSD'' \<Longrightarrow>
           astype_float (str_extract_digits (snd (df ! j))) = Inr (snd (df' ! j))"
    and "normalize_name (fst (df ! j)) = ''rating'' \<Longrightarrow> snd (df' ! j) = fillna0 (snd (df ! j))"
    and "fst (df ! j) \<notin> {''Price'', ''Ram'', ''SSD''} \<Longrightarrow>
         normalize_name (fst (df ! j)) \<notin> {''rating'', ''brand''} \<Longrightarrow>
           snd (df' ! j) = snd (df ! j)"
proof -
  from ok obtain d1 d3 d4 d5 where
    s1: "clean_price df = Inr d1" and s23: "extract_loop [''Ram'', ''SSD''] d1 = Inr d3"
    and s4: "normalize_columns d3 = Inr d4" and s5: "fill_rating d4 = Inr d5"
    and s6: "derive_brand d5 = Inr df'"
    by (rule clean_table_Inr)
  from s23 obtain d2 where s2: "extract_numeric ''Ram'' d1 = Inr d2"
    and s3: "extract_numeric ''SSD'' d2 = Inr d3"
    by (rule extract_loop_Inr)
  note p = clean_price_Inr[OF s1] and r = extract_numeric_Inr[OF s2]
    and s = extract_numeric_Inr[OF s3]
  have l1: "length d1 = length df" and l2: "length d2 = length df" and l3: "length d3 = length df"
    using p(1) r(1) s(1) by simp_all
  have n1: "fst (d1 ! j) = fst (df ! j)" using p(2) j l1 by (metis nth_map)
  have n2: "fst (d2 ! j) = fst (df ! j)" using r(2) n1 j l1 l2 by (metis nth_map)
  have n3: "fst (d3 ! j) = fst (df ! j)" using s(2) n2 j l2 l3 by (metis nth_map)
  have d4: "d4 = map (\<lambda>p. (normalize_name (fst p), snd p)) d3"
    using s4 by (simp add: normalize_columns_def)
  have l4: "length d4 = length df" using d4 l3 by simp
  have c4: "d4 ! j = (normalize_name (fst (df ! j)), snd (d3 ! j))"
    using d4 j l3 n3 by simp
  have l5: "length d5 = length df" using fill_rating_Inr(1)[OF s5] l4 by simp
  have c5: "d5 ! j = (normalize_name (fst (df ! j)),
      if normalize_name (fst (df ! j)) = ''rating'' then fillna0 (snd (d3 ! j)) else snd (d3 ! j))"
    using fill_rating_Inr(1)[OF s5] c4 j l4 by simp
  from s6 obtain m where df': "df' = map (\<lambda>p. if fst p = ''brand''
                         then (fst p, replace_values brand_mapping (snd p)) else p)
                 (setitem d5 ''brand'' (str_get0 (str_split m)))"
    by (rule derive_brand_Inr)
  have l6: "length d5 \<le> length (setitem d5 ''brand'' (str_get0 (str_split m)))"
    by (rule setitem_length)
  then show "length df \<le> length df'" using df' l5 by simp
  have j6: "j < length (setitem d5 ''brand'' (str_get0 (str_split m)))" using l6 l5 j by simp
  have c6: "df' ! j = (if normalize_name (fst (df ! j)) = ''brand''
      then (''brand'', replace_values brand_mapping (str_get0 (str_split m))) else d5 ! j)"
    using df' j6 j l5 c5 by (simp add: setitem_nth)
  show "fst (df' ! j) = normalize_name (fst (df ! j))"
    using c6 c5 by simp
  show "snd (df' ! j) = fillna0 (snd (df ! j))" if a: "normalize_name (fst (df ! j)) = ''rating''"
  proof -
    have "fst (df ! j) \<noteq> ''Price''" "fst (df ! j) \<noteq> ''Ram''" "fst (df ! j) \<noteq> ''SSD''"
      using a name_facts by auto
    then have "d3 ! j = df ! j" using p(4) r(4) s(4) j l1 l2 n1 n2 by simp
    then show ?thesis using c6 c5 a by simp
  qed
  show "astype_float (str_replace '','' [] (str_replace rupee [] (snd (df ! j))))
             = Inr (snd (df' ! j))" if a: "fst (df ! j) = ''Price''"
  proof -
    have "d3 ! j = d1 ! j" using r(4) s(4) j l1 l2 n1 n2 a by simp
    moreover have "normalize_name (fst (df ! j)) = ''price''" using a name_facts by simp
    ultimately have "snd (df' ! j) = snd (d1 ! j)" using c6 c5 by simp
    then show ?thesis using p(5)[OF j a] by simp
  qed
  show "astype_float (str_extract_digits (snd (df ! j))) = Inr (snd (df' ! j))"
    if a: "fst (df ! j) = ''Ram'' \<or> fst (df ! j) = ''SSD''"
  proof -
    have np: "fst (df ! j) \<noteq> ''Price''" using a by auto
    then have e1: "d1 ! j = df ! j" using p(4) j by simp
    have nn: "normalize_name (fst (df ! j)) = ''ram'' \<or> normalize_name (fst (df ! j)) = ''ssd''"
      using a name_facts by auto
    then have e6: "snd (df' ! j) = snd (d3 ! j)" using c6 c5 by auto
    from a show ?thesis
    proof
      assume ram: "fst (df ! j) = ''Ram''"
      then have "d3 ! j = d2 ! j" using s(4) j l2 n2 by simp
      then show ?thesis using r(5)[of j] j l1 n1 ram e1 e6 by simp
    next
      assume ssd: "fst (df ! j) = ''SSD''"
      then have "d2 ! j = df ! j" using r(4)[of j] j l1 n1 e1 by simp
      then show ?thesis using s(5)[of j] j l2 n2 ssd e6 by simp
    qed
  qed
  show "snd (df' ! j) = snd (df ! j)"
    if a: "fst (df ! j) \<notin> {''Price'', ''Ram'', ''SSD''}"
      and b: "normalize_name (fst (df ! j)) \<notin> {''rating'', ''brand''}"
  proof -
    have "d3 ! j = df ! j" using a p(4) r(4) s(4) j l1 l2 n1 n2 by simp
    then show ?thesis using c6 c5 b by simp
  qed
qed

subsection \<open>Evaluation of the examples\<close>

lemmas str_eval = is_digit_def digit_val_def dec_val_def lower_char_def lower_def is_space_def
  is_cspace_def starts_with_def search_icase_def first_digits_def py_split_def rupee_def
lemmas float_eval = underscores_ok_def strip_cspace_def split_sign_def scale10_def
  parse_exponent_def parse_decimal_def parse_float_def py_float_def
lemmas table_eval = nrows_def wf_table_def getitem_def str_accessor_def series_str_def
  setitem_def str_map_def str_replace_def str_extract_digits_def to_float_def str_split_def
  str_get0_def replace_values_def fillna0_def isna_def is_number_def
lemmas clean_eval = clean_price_def extract_numeric_def normalize_name_def normalize_columns_def
  fill_rating_def brand_mapping_def derive_brand_def clean_steps_def clean_table_def

lemma clean_listing1: "clean_table listing1 = Inr cleaned1"
  by (simp add: listing1_def cleaned1_def str_eval float_eval table_eval clean_eval)

subsection \<open>The price column\<close>

lemma str_replace_nth:
  "i < length col \<Longrightarrow> col ! i = Str s \<Longrightarrow>
     str_replace old new col ! i = Str (replace_all old new s)"
  by (simp add: str_replace_def str_map_def)

lemma str_replace_length [simp]: "length (str_replace old new col) = length col"
  by (simp add: str_replace_def str_map_def)

lemma strip_rupee_commas:
  assumes "\<forall>c\<in>set body. is_digit c \<or> c = CHR '',''"
  shows "replace_all '','' [] (replace_all rupee [] (rupee @ body))
           = filter (\<lambda>c. c \<noteq> CHR '','') body"
proof -
  have "CHR 0xE2 \<notin> set body"
    using assms is_digit_facts(7) by auto
  then have "replace_all rupee [] body = body"
    by (intro replace_all_absent) (simp_all add: rupee_def)
  moreover have "replace_all rupee [] (rupee @ body) = [] @ replace_all rupee [] body"
    by (rule replace_all_prefix) (simp add: rupee_def)
  ultimately show ?thesis by (simp add: replace_all_single)
qed

lemma price_string_value:
  assumes "\<forall>c\<in>set body. is_digit c \<or> c = CHR '',''" and "\<exists>c\<in>set body. is_digit c"
  shows "py_float (replace_all '','' [] (replace_all rupee [] (rupee @ body)))
           = Some (Num (of_nat (dec_val (filter (\<lambda>c. c \<noteq> CHR '','') body))))"
proof -
  let ?ds = "filter (\<lambda>c. c \<noteq> CHR '','') body"
  have "?ds \<noteq> []" using assms(2) is_digit_facts(6) by (auto simp: filter_empty_conv)
  moreover have "list_all is_digit ?ds" using assms(1) by (auto simp: list_all_iff)
  ultimately have "py_float ?ds = Some (Num (of_nat (dec_val ?ds)))" by (rule py_float_digits)
  then show ?thesis using strip_rupee_commas[OF assms(1)] by simp
qed

text \<open>
  C4.  For a price string made of the rupee sign followed by decimal digits and
  comma separators, the two replacements leave exactly the digits, and in every
  table that cleaning accepts the price of that row is what \<^verbatim>\<open>float\<close> makes of
  these digits.  Where the digits spell an integer up to \<open>2 ^ 53\<close>, which
  \<^verbatim>\<open>float\<close> represents exactly, the price is exactly that integer (12345 for
  the string with the digits \<^verbatim>\<open>12,345\<close>).
\<close>

theorem price_normalization_exact:
  assumes "\<forall>c\<in>set body. is_digit c \<or> c = CHR '',''" and "\<exists>c\<in>set body. is_digit c"
  shows "replace_all '','' [] (replace_all rupee [] (rupee @ body))
           = filter (\<lambda>c. c \<noteq> CHR '','') body
    \<and> (dec_val (filter (\<lambda>c. c \<noteq> CHR '','') body) \<le> 2 ^ 53 \<longrightarrow>
         py_float (filter (\<lambda>c. c \<noteq> CHR '','') body)
           = Some (Num (of_nat (dec_val (filter (\<lambda>c. c \<noteq> CHR '','') body)))))
    \<and> (clean_table df = Inr df' \<longrightarrow> j < length df \<longrightarrow> fst (df ! j) = ''Price'' \<longrightarrow>
         i < length (snd (df ! j)) \<longrightarrow> snd (df ! j) ! i = Str (rupee @ body) \<longrightarrow>
           fst (df' ! j) = ''price'' \<and>
           py_float (filter (\<lambda>c. c \<noteq> CHR '','') body) = Some (snd (df' ! j) ! i) \<and>
           (dec_val (filter (\<lambda>c. c \<noteq> CHR '','') body) \<le> 2 ^ 53 \<longrightarrow>
              snd (df' ! j) ! i = Num (of_nat (dec_val (filter (\<lambda>c. c \<noteq> CHR '','') body)))))"
proof -
  let ?ds = "filter (\<lambda>c. c \<noteq> CHR '','') body"
  have st: "replace_all '','' [] (replace_all rupee [] (rupee @ body)) = ?ds"
    using assms(1) by (rule strip_rupee_commas)
  have v: "py_float ?ds = Some (Num (of_nat (dec_val ?ds)))"
    using price_string_value[OF assms] st by simp
  have tab: "fst (df' ! j) = ''price'' \<and> py_float ?ds = Some (snd (df' ! j) ! i) \<and>
           (dec_val ?ds \<le> 2 ^ 53 \<longrightarrow> snd (df' ! j) ! i = Num (of_nat (dec_val ?ds)))"
    if ok: "clean_table df = Inr df'" and j: "j < length df" and p: "fst (df ! j) = ''Price''"
      and i: "i < length (snd (df ! j))" and s: "snd (df ! j) ! i = Str (rupee @ body)"
  proof -
    have n: "fst (df' ! j) = ''price''"
      using clean_table_columns(2)[OF ok j] p name_facts(1) by simp
    let ?c = "str_replace '','' [] (str_replace rupee [] (snd (df ! j)))"
    have "astype_float ?c = Inr (snd (df' ! j))"
      using clean_table_columns(3)[OF ok j p] .
    from astype_float_Inr[OF this] i have "to_float (?c ! i) = Some (snd (df' ! j) ! i)"
      by simp
    moreover have "?c ! i = Str (replace_all '','' [] (replace_all rupee [] (rupee @ body)))"
      using i s by (simp add: str_replace_nth)
    ultimately have c: "py_float ?ds = Some (snd (df' ! j) ! i)"
      using st by (simp add: to_float_def)
    then have "snd (df' ! j) ! i = Num (of_nat (dec_val ?ds))" using v by simp
    then show ?thesis using n c by simp
  qed
  show ?thesis using st v tab by blast
qed

theorem price_normalization_exact_witness:
  "replace_all '','' [] (replace_all rupee [] (rupee @ ''12,345'')) = ''12345''
   \<and> py_float ''12345'' = Some (Num 12345)
   \<and> clean_table listing1 = Inr cleaned1
   \<and> fst (cleaned1 ! 0) = ''price'' \<and> snd (cleaned1 ! 0) ! 0 = Num 12345"
proof -
  have h1: "\<forall>c\<in>set ''12,345''. is_digit c \<or> c = CHR '',''" by (simp add: is_digit_def)
  have h2: "\<exists>c\<in>set ''12,345''. is_digit c" by (simp add: is_digit_def)
  have f: "filter (\<lambda>c. c \<noteq> CHR '','') ''12,345'' = ''12345''" by simp
  have v: "dec_val ''12345'' = 12345" by (simp add: dec_val_def digit_val_def)
  have b: "dec_val ''12345'' \<le> 2 ^ 53" unfolding v by simp
  have r: "snd (listing1 ! 0) ! 0 = Str (rupee @ ''12,345'')" "fst (listing1 ! 0) = ''Price''"
    "0 < length listing1" "0 < length (snd (listing1 ! 0))"
    by (simp_all add: listing1_def)
  note w = price_normalization_exact[OF h1 h2, of listing1 cleaned1 0 0, unfolded f]
  from w have "replace_all '','' [] (replace_all rupee [] (rupee @ ''12,345'')) = ''12345''"
    by blast
  moreover from w b v have "py_float ''12345'' = Some (Num 12345)" by simp
  moreover from w clean_listing1 r b v
  have "fst (cleaned1 ! 0) = ''price'' \<and> snd (cleaned1 ! 0) ! 0 = Num 12345" by simp
  ultimately show ?thesis using clean_listing1 by blast
qed

subsection \<open>The Ram and SSD columns\<close>

lemma clean_listing2: "clean_table listing2 = Inr cleaned2"
  by (simp add: listing2_def cleaned2_def str_eval float_eval table_eval clean_eval)



lemma first_digits_Some:
  "first_digits s = Some ds \<Longrightarrow> ds \<noteq> [] \<and> list_all is_digit ds"
proof -
  assume a: "first_digits s = Some ds"
  let ?t = "dropWhile (\<lambda>c. \<not> is_digit c) s"
  from a have t: "?t \<noteq> []" and ds: "ds = takeWhile is_digit ?t"
    by (auto simp: first_digits_def Let_def split: if_splits)
  have "is_digit (hd ?t)" using t hd_dropWhile[of "\<lambda>c. \<not> is_digit c" s] by simp
  then have "ds \<noteq> []" using t ds by (cases ?t) auto
  moreover have "list_all is_digit ds" unfolding ds list_all_iff using set_takeWhileD by metis
  ultimately show ?thesis by simp
qed



lemma extract_never_fails: "\<exists>col'. astype_float (str_extract_digits col) = Inr col'"
proof (rule astype_float_total, rule ballI)
  fix c assume "c \<in> set (str_extract_digits col)"
  then obtain x where "c = (case x of Str s \<Rightarrow> (case first_digits s of None \<Rightarrow> NaN | Some ds \<Rightarrow> Str ds) | _ \<Rightarrow> NaN)"
    by (auto simp: str_extract_digits_def str_map_def)
  then show "to_float c \<noteq> None"
    using first_digits_Some py_float_digits
    by (auto simp: to_float_def split: cell.splits option.splits)
qed



subsection \<open>The rating column\<close>

lemma fillna0_nth:
  "i < length col \<Longrightarrow> fillna0 col ! i = (if col ! i = NaN then Num 0 else col ! i)"
  by (simp add: fillna0_def)

text \<open>
  C9.  In every table that cleaning accepts, a row whose rating is absent (NaN) has
  rating 0 afterwards, and a row whose rating is the number 0 keeps it, so the two
  cannot be told apart in the cleaned table; any other rating is kept unchanged.
\<close>

theorem missing_rating_is_zero:
  assumes "clean_table df = Inr df'" and "j < length df"
    and "normalize_name (fst (df ! j)) = ''rating''" and "i < length (snd (df ! j))"
  shows "fst (df' ! j) = ''rating''
       \<and> (snd (df ! j) ! i = NaN \<longrightarrow> snd (df' ! j) ! i = Num 0)
       \<and> (snd (df ! j) ! i = Num 0 \<longrightarrow> snd (df' ! j) ! i = Num 0)
       \<and> (snd (df ! j) ! i \<noteq> NaN \<longrightarrow> snd (df' ! j) ! i = snd (df ! j) ! i)"
  using clean_table_columns(2)[OF assms(1,2)] clean_table_columns(5)[OF assms(1,2,3)] assms(3,4)
  by (simp add: fillna0_nth)

theorem missing_rating_is_zero_witness:
  "clean_table listing2 = Inr cleaned2
   \<and> snd (listing2 ! 3) ! 0 = NaN \<and> snd (listing2 ! 3) ! 1 = Num 0
   \<and> snd (cleaned2 ! 3) ! 0 = Num 0 \<and> snd (cleaned2 ! 3) ! 1 = Num 0"
proof -
  have a: "3 < length listing2" "normalize_name (fst (listing2 ! 3)) = ''rating''"
    "0 < length (snd (listing2 ! 3))" "1 < length (snd (listing2 ! 3))"
    "snd (listing2 ! 3) ! 0 = NaN" "snd (listing2 ! 3) ! 1 = Num 0"
    by (simp_all add: listing2_def normalize_name_def lower_def lower_char_def starts_with_def)
  from missing_rating_is_zero[OF clean_listing2 a(1,2,3)] a(5)
  have r0: "snd (cleaned2 ! 3) ! 0 = Num 0" by blast
  from missing_rating_is_zero[OF clean_listing2 a(1,2,4)] a(6)
  have r1: "snd (cleaned2 ! 3) ! 1 = Num 0" by blast
  show ?thesis using clean_listing2 a(5,6) r0 r1 by simp
qed

subsection \<open>Prices that \<^verbatim>\<open>float\<close> rejects\<close>

lemma to_float_None_iff: "to_float c = None \<longleftrightarrow> (\<exists>s. c = Str s \<and> py_float s = None)"
  by (cases c) (simp_all add: to_float_def)

lemma price_chain_cells:
  "set (str_replace '','' [] (str_replace rupee [] col)) =
     (\<lambda>c. case c of Str s \<Rightarrow> Str (replace_all '','' [] (replace_all rupee [] s)) | _ \<Rightarrow> NaN) ` set col"
proof -
  have "str_replace '','' [] (str_replace rupee [] col) =
     map (\<lambda>c. case c of Str s \<Rightarrow> Str (replace_all '','' [] (replace_all rupee [] s)) | _ \<Rightarrow> NaN) col"
    by (simp add: str_replace_def str_map_def split: cell.splits)
  then show ?thesis by simp
qed

lemma price_chain_fails_iff:
  "astype_float (str_replace '','' [] (str_replace rupee [] col)) = Inl e \<longleftrightarrow>
     e = ValueError \<and>
     (\<exists>s. Str s \<in> set col \<and> py_float (replace_all '','' [] (replace_all rupee [] s)) = None)"
proof -
  have "(\<exists>c\<in>set (str_replace '','' [] (str_replace rupee [] col)). to_float c = None) \<longleftrightarrow>
        (\<exists>s. Str s \<in> set col \<and> py_float (replace_all '','' [] (replace_all rupee [] s)) = None)"
    (is "?l \<longleftrightarrow> ?r")
  proof
    assume ?l
    then obtain x where x: "x \<in> set col"
      and n: "to_float (case x of Str s \<Rightarrow> Str (replace_all '','' [] (replace_all rupee [] s))
                        | _ \<Rightarrow> NaN) = None"
      unfolding price_chain_cells by blast
    show ?r
    proof (cases x)
      case (Str s)
      with x n show ?thesis by (auto simp: to_float_def)
    qed (use n in \<open>simp_all add: to_float_def\<close>)
  next
    assume ?r
    then obtain s where s: "Str s \<in> set col"
      and n: "py_float (replace_all '','' [] (replace_all rupee [] s)) = None" by blast
    have "Str (replace_all '','' [] (replace_all rupee [] s))
            \<in> set (str_replace '','' [] (str_replace rupee [] col))"
      unfolding price_chain_cells using s by force
    moreover have "to_float (Str (replace_all '','' [] (replace_all rupee [] s))) = None"
      using n by (simp add: to_float_def)
    ultimately show ?l by blast
  qed
  then show ?thesis by (simp add: astype_float_Inl)
qed

lemma str_accessor_has_Str: "Str s \<in> set col \<Longrightarrow> str_accessor col = Inr col"
  unfolding str_accessor_def list_ex_iff by (metis cell.disc(1))

lemma str_accessor_Inr: "str_accessor col = Inr c \<Longrightarrow> c = col \<and> (col = [] \<or> (\<exists>s. Str s \<in> set col))"
  unfolding str_accessor_def list_ex_iff is_Str_def by (auto split: if_splits)

lemma str_accessor_replace:
  assumes "str_accessor col = Inr col"
  shows "str_accessor (str_replace old new col) = Inr (str_replace old new col)"
proof -
  from str_accessor_Inr[OF assms] consider "col = []" | s where "Str s \<in> set col" by blast
  then show ?thesis
  proof cases
    case 1
    then show ?thesis by (simp add: str_accessor_def str_replace_def str_map_def)
  next
    case 2
    then have "Str (replace_all old new s) \<in> set (str_replace old new col)"
      unfolding str_replace_def str_map_def by force
    then show ?thesis by (rule str_accessor_has_Str)
  qed
qed

lemma clean_price_ValueError_iff:
  "clean_price df = Inl ValueError \<longleftrightarrow>
     (\<exists>c s. getitem df ''Price'' = [c] \<and> Str s \<in> set c \<and>
            py_float (replace_all '','' [] (replace_all rupee [] s)) = None)"
proof
  assume a: "clean_price df = Inl ValueError"
  show "\<exists>c s. getitem df ''Price'' = [c] \<and> Str s \<in> set c \<and>
            py_float (replace_all '','' [] (replace_all rupee [] s)) = None"
  proof (cases "series_str df ''Price''")
    case (Inl e)
    then have "e = ValueError" using a by (simp add: clean_price_def)
    then show ?thesis using Inl
      by (auto simp: series_str_def str_accessor_def split: list.splits if_splits)
  next
    case (Inr c)
    from series_str_Inr[OF Inr] have g: "getitem df ''Price'' = [c]"
      and ok: "str_accessor c = Inr c" by (auto simp: str_accessor_def)
    have "astype_float (str_replace '','' [] (str_replace rupee [] c)) = Inl ValueError"
      using a Inr str_accessor_replace[OF ok, of rupee "[]"]
      by (simp add: clean_price_def split: sum.splits)
    then show ?thesis using g price_chain_fails_iff by blast
  qed
next
  assume "\<exists>c s. getitem df ''Price'' = [c] \<and> Str s \<in> set c \<and>
            py_float (replace_all '','' [] (replace_all rupee [] s)) = None"
  then obtain c s where g: "getitem df ''Price'' = [c]" and s: "Str s \<in> set c"
    and f: "py_float (replace_all '','' [] (replace_all rupee [] s)) = None" by blast
  have ok: "str_accessor c = Inr c" using s by (rule str_accessor_has_Str)
  then have c0: "series_str df ''Price'' = Inr c" using g by (simp add: series_str_def)
  have "astype_float (str_replace '','' [] (str_replace rupee [] c)) = Inl ValueError"
    using s f price_chain_fails_iff by blast
  then show "clean_price df = Inl ValueError"
    using c0 str_accessor_replace[OF ok, of rupee "[]"] by (simp add: clean_price_def)
qed

text \<open>
  C5.  The price statement raises \<^verbatim>\<open>ValueError\<close> exactly when some string of the
  Price column, with every rupee sign and every comma removed, is rejected by
  \<^verbatim>\<open>float\<close> (is not numeric).  When it does, cleaning as a whole raises the same
  error and gives no table: nothing is put in place of the price.
\<close>

theorem price_parse_error:
  "(clean_price df = Inl ValueError \<longleftrightarrow>
      (\<exists>c s. getitem df ''Price'' = [c] \<and> Str s \<in> set c \<and>
             py_float (replace_all '','' [] (replace_all rupee [] s)) = None))
   \<and> (clean_price df = Inl ValueError \<longrightarrow>
        clean_table df = Inl ValueError \<and> (\<forall>df'. clean_table df \<noteq> Inr df'))"
  using clean_price_ValueError_iff[of df]
  by (auto simp: clean_table_def clean_steps_def)

theorem price_parse_error_witness:
  "getitem listing3 ''Price'' = [snd (listing3 ! 0)]
   \<and> py_float (replace_all '','' [] (replace_all rupee [] ''On request'')) = None
   \<and> clean_price listing3 = Inl ValueError \<and> clean_table listing3 = Inl ValueError"
proof -
  have g: "getitem listing3 ''Price'' = [snd (listing3 ! 0)]"
    by (simp add: listing3_def getitem_def)
  have f: "py_float (replace_all '','' [] (replace_all rupee [] ''On request'')) = None"
    by (simp add: str_eval float_eval)
  have m: "Str ''On request'' \<in> set (snd (listing3 ! 0))" by (simp add: listing3_def)
  have "clean_price listing3 = Inl ValueError"
    using price_parse_error[of listing3] g f m by blast
  then show ?thesis using price_parse_error[of listing3] g f by blast
qed

subsection \<open>Which cleaned fields are numbers\<close>









subsection \<open>The brand column\<close>




lemma brand_mapping_id: "map_of brand_mapping s = Some v \<Longrightarrow> v = s"
  by (simp add: brand_mapping_def split: if_splits)

lemma replace_values_brand [simp]: "replace_values brand_mapping col = col"
  unfolding replace_values_def
  by (intro map_idI) (auto split: cell.splits option.splits dest: brand_mapping_id)


lemma setitem_member: "(k, c) \<in> set (setitem df k c)"
  by (auto simp: setitem_def image_iff)

lemma setitem_snd: "p \<in> set (setitem df k c) \<Longrightarrow> fst p = k \<Longrightarrow> snd p = c"
  by (cases p) (auto simp: setitem_def image_iff split: if_splits)






subsection \<open>Which tables cleaning accepts\<close>

lemma getitem_map_other:
  "(\<And>p. p \<in> set df \<Longrightarrow> fst p \<noteq> k \<Longrightarrow> g p = p) \<Longrightarrow>
   (\<And>p. p \<in> set df \<Longrightarrow> fst p = k \<Longrightarrow> fst (g p) = k) \<Longrightarrow> k \<noteq> k' \<Longrightarrow>
     getitem (map g df) k' = getitem df k'"
proof (induction df)
  case Nil
  then show ?case by (simp add: getitem_def)
next
  case (Cons a df)
  have ih: "getitem (map g df) k' = getitem df k'"
    by (rule Cons.IH) (use Cons.prems in auto)
  have a: "fst a \<noteq> k \<Longrightarrow> g a = a" "fst a = k \<Longrightarrow> fst (g a) = k"
    using Cons.prems by auto
  show ?case
  proof (cases "fst a = k")
    case True
    then show ?thesis using ih a(2) Cons.prems(3) by (simp add: getitem_def)
  next
    case False
    then show ?thesis using ih a(1) by (simp add: getitem_def)
  qed
qed

lemma getitem_append_other: "k \<noteq> k' \<Longrightarrow> getitem (df @ [(k, c)]) k' = getitem df k'"
  by (simp add: getitem_def)

lemma getitem_setitem_other: "k \<noteq> k' \<Longrightarrow> getitem (setitem df k c) k' = getitem df k'"
  unfolding setitem_def
  by (simp add: getitem_append_other) (intro impI getitem_map_other, simp_all)

lemma getitem_fill_other:
  "k' \<noteq> ''rating'' \<Longrightarrow>
     getitem (map (\<lambda>p. if fst p = ''rating'' then (fst p, fillna0 (snd p)) else p) df) k' = getitem df k'"
  by (rule getitem_map_other[where k = "''rating''"]) simp_all

lemma getitem_normalized_setitem:
  assumes "normalize_name k \<noteq> k'" and "k \<in> set (map fst df)"
  shows "getitem (map (\<lambda>p. (normalize_name (fst p), snd p)) (setitem df k c)) k'
       = getitem (map (\<lambda>p. (normalize_name (fst p), snd p)) df) k'"
proof -
  have "map (\<lambda>p. (normalize_name (fst p), snd p)) (setitem df k c) =
        map (\<lambda>p. if fst p = k then (normalize_name k, c) else (normalize_name (fst p), snd p)) df"
    using assms(2) by (simp add: setitem_def)
  moreover have "getitem (map (\<lambda>p. if fst p = k then (normalize_name k, c)
                                    else (normalize_name (fst p), snd p)) df) k'
       = getitem (map (\<lambda>p. (normalize_name (fst p), snd p)) df) k'"
    using assms(1) by (induction df) (auto simp: getitem_def)
  ultimately show ?thesis by simp
qed

lemma series_str_Inr_iff:
  "series_str df k = Inr c \<longleftrightarrow> getitem df k = [c] \<and> str_accessor c = Inr c"
  by (auto simp: series_str_def str_accessor_def split: list.splits if_splits)

lemma price_chain_total:
  "(\<exists>p'. astype_float (str_replace '','' [] (str_replace rupee [] p)) = Inr p') \<longleftrightarrow>
     (\<forall>s. Str s \<in> set p \<longrightarrow> py_float (replace_all '','' [] (replace_all rupee [] s)) \<noteq> None)"
proof (cases "astype_float (str_replace '','' [] (str_replace rupee [] p))")
  case (Inl e)
  then show ?thesis using price_chain_fails_iff[of p e] by auto
next
  case (Inr p')
  then show ?thesis using price_chain_fails_iff[of p ValueError] by auto
qed

lemma clean_price_Inr_iff:
  "clean_price df = Inr d1 \<longleftrightarrow>
     (\<exists>p p'. getitem df ''Price'' = [p] \<and> str_accessor p = Inr p \<and>
        astype_float (str_replace '','' [] (str_replace rupee [] p)) = Inr p' \<and>
        d1 = setitem df ''Price'' p')"
proof
  assume "clean_price df = Inr d1"
  then obtain c0 c1 c2 where
    c0: "series_str df ''Price'' = Inr c0"
    and c1: "str_accessor (str_replace rupee [] c0) = Inr c1"
    and c2: "astype_float (str_replace '','' [] c1) = Inr c2"
    and d1: "d1 = setitem df ''Price'' c2"
    by (auto simp: clean_price_def split: sum.splits)
  have "c1 = str_replace rupee [] c0" using c1 by (simp add: str_accessor_def split: if_splits)
  then show "\<exists>p p'. getitem df ''Price'' = [p] \<and> str_accessor p = Inr p \<and>
        astype_float (str_replace '','' [] (str_replace rupee [] p)) = Inr p' \<and>
        d1 = setitem df ''Price'' p'"
    using c0 c2 d1 series_str_Inr_iff by blast
next
  assume "\<exists>p p'. getitem df ''Price'' = [p] \<and> str_accessor p = Inr p \<and>
        astype_float (str_replace '','' [] (str_replace rupee [] p)) = Inr p' \<and>
        d1 = setitem df ''Price'' p'"
  then obtain p p' where g: "getitem df ''Price'' = [p]" and ok: "str_accessor p = Inr p"
    and a: "astype_float (str_replace '','' [] (str_replace rupee [] p)) = Inr p'"
    and d1: "d1 = setitem df ''Price'' p'" by blast
  have "series_str df ''Price'' = Inr p" using g ok series_str_Inr_iff by blast
  then show "clean_price df = Inr d1"
    using str_accessor_replace[OF ok, of rupee "[]"] a d1 by (simp add: clean_price_def)
qed

lemma extract_numeric_Inr_iff:
  "extract_numeric k df = Inr d \<longleftrightarrow>
     (\<exists>r r'. getitem df k = [r] \<and> str_accessor r = Inr r \<and>
        astype_float (str_extract_digits r) = Inr r' \<and> d = setitem df k r')"
proof
  assume "extract_numeric k df = Inr d"
  then obtain c0 c1 where "series_str df k = Inr c0"
    "astype_float (str_extract_digits c0) = Inr c1" "d = setitem df k c1"
    by (auto simp: extract_numeric_def split: sum.splits)
  then show "\<exists>r r'. getitem df k = [r] \<and> str_accessor r = Inr r \<and>
        astype_float (str_extract_digits r) = Inr r' \<and> d = setitem df k r'"
    using series_str_Inr_iff by blast
next
  assume "\<exists>r r'. getitem df k = [r] \<and> str_accessor r = Inr r \<and>
        astype_float (str_extract_digits r) = Inr r' \<and> d = setitem df k r'"
  then obtain r r' where "getitem df k = [r]" "str_accessor r = Inr r"
    "astype_float (str_extract_digits r) = Inr r'" "d = setitem df k r'" by blast
  moreover from this have "series_str df k = Inr r" using series_str_Inr_iff by blast
  ultimately show "extract_numeric k df = Inr d" by (simp add: extract_numeric_def)
qed

lemma getitem_present: "getitem df k = [c] \<Longrightarrow> k \<in> set (map fst df)"
  using getitem_Nil_iff[of df k] by auto

lemma name_neq:
  "normalize_name ''Price'' \<noteq> ''model''" "normalize_name ''Ram'' \<noteq> ''model''"
  "normalize_name ''SSD'' \<noteq> ''model''" "normalize_name ''Price'' \<noteq> ''rating''"
  "normalize_name ''Ram'' \<noteq> ''rating''" "normalize_name ''SSD'' \<noteq> ''rating''"
  by (simp_all add: name_facts)

text \<open>The three value statements and the renaming, up to the rating statement.\<close>

lemma clean_table_Inr_iff:
  "clean_table df = Inr df' \<longleftrightarrow>
     (\<exists>p p' r r' s s' m.
        getitem df ''Price'' = [p] \<and> str_accessor p = Inr p \<and>
        astype_float (str_replace '','' [] (str_replace rupee [] p)) = Inr p' \<and>
        getitem df ''Ram'' = [r] \<and> str_accessor r = Inr r \<and>
        astype_float (str_extract_digits r) = Inr r' \<and>
        getitem df ''SSD'' = [s] \<and> str_accessor s = Inr s \<and>
        astype_float (str_extract_digits s) = Inr s' \<and>
        ''rating'' \<in> set (map normalize_name (map fst df)) \<and>
        getitem (map (\<lambda>p. (normalize_name (fst p), snd p)) df) ''model'' = [m] \<and>
        str_accessor m = Inr m \<and>
        df' = setitem
                (map (\<lambda>p. if fst p = ''rating'' then (fst p, fillna0 (snd p)) else p)
                   (map (\<lambda>p. (normalize_name (fst p), snd p))
                      (setitem (setitem (setitem df ''Price'' p') ''Ram'' r') ''SSD'' s')))
                ''brand'' (str_get0 (str_split m)))"
  (is "?l \<longleftrightarrow> ?r")
proof -
  let ?norm = "map (\<lambda>p. (normalize_name (fst p), snd p))"
  let ?fill = "map (\<lambda>p. if fst p = ''rating'' then (fst p, fillna0 (snd p)) else p)"
  have steps: "clean_table df = Inr df' \<longleftrightarrow>
      (\<exists>d1 d2 d3. clean_price df = Inr d1 \<and> extract_numeric ''Ram'' d1 = Inr d2 \<and>
         extract_numeric ''SSD'' d2 = Inr d3 \<and> fill_rating (?norm d3) = Inr (?fill (?norm d3)) \<and>
         derive_brand (?fill (?norm d3)) = Inr df')"
    by (auto simp: clean_table_def clean_steps_def normalize_columns_def fill_rating_def
        split: sum.splits list.splits)
  have rating: "fill_rating d = Inr (?fill d) \<longleftrightarrow> ''rating'' \<in> set (map fst d)" for d
    using getitem_Nil_iff[of d "''rating''"] by (auto simp: fill_rating_def split: list.splits)
  have brand: "derive_brand d = Inr df' \<longleftrightarrow>
      (\<exists>m. getitem d ''model'' = [m] \<and> str_accessor m = Inr m \<and>
           df' = setitem d ''brand'' (str_get0 (str_split m)))" for d
  proof -
    have "map (\<lambda>p. if fst p = ''brand''
                     then (fst p, replace_values brand_mapping (snd p)) else p) t = t" for t
      by (intro map_idI) (simp add: prod_eq_iff)
    then show ?thesis
      using series_str_Inr_iff[of d "''model''"]
      by (auto simp: derive_brand_def split: sum.splits)
  qed
  have pres: "''Ram'' \<in> set (map fst (setitem df ''Price'' p')) \<longleftrightarrow> ''Ram'' \<in> set (map fst df)"
    for p' by (auto simp: setitem_def)
  show ?thesis
  proof
    assume ?l
    then obtain d1 d2 d3 where s1: "clean_price df = Inr d1"
      and s2: "extract_numeric ''Ram'' d1 = Inr d2" and s3: "extract_numeric ''SSD'' d2 = Inr d3"
      and s5: "fill_rating (?norm d3) = Inr (?fill (?norm d3))"
      and s6: "derive_brand (?fill (?norm d3)) = Inr df'"
      using steps by blast
    from s1 obtain p p' where p: "getitem df ''Price'' = [p]" "str_accessor p = Inr p"
      "astype_float (str_replace '','' [] (str_replace rupee [] p)) = Inr p'"
      and d1: "d1 = setitem df ''Price'' p'"
      using clean_price_Inr_iff by blast
    from s2 obtain r r' where r0: "getitem d1 ''Ram'' = [r]" and r: "str_accessor r = Inr r"
      "astype_float (str_extract_digits r) = Inr r'" and d2: "d2 = setitem d1 ''Ram'' r'"
      using extract_numeric_Inr_iff by blast
    from s3 obtain s s' where s0: "getitem d2 ''SSD'' = [s]" and s: "str_accessor s = Inr s"
      "astype_float (str_extract_digits s) = Inr s'" and d3: "d3 = setitem d2 ''SSD'' s'"
      using extract_numeric_Inr_iff by blast
    have gr: "getitem df ''Ram'' = [r]" using r0 d1 by (simp add: getitem_setitem_other)
    have gs: "getitem df ''SSD'' = [s]" using s0 d2 d1 by (simp add: getitem_setitem_other)
    have in1: "''Price'' \<in> set (map fst df)" using p(1) by (rule getitem_present)
    have in2: "''Ram'' \<in> set (map fst d1)" using r0 by (rule getitem_present)
    have in3: "''SSD'' \<in> set (map fst d2)" using s0 by (rule getitem_present)
    have names: "map fst d3 = map fst df"
      using d1 d2 d3 in1 in2 in3 by (simp add: setitem_names_present)
    have rt: "''rating'' \<in> set (map normalize_name (map fst df))"
      using s5 rating[of "?norm d3"] names[symmetric] by (simp add: comp_def)
    from s6 obtain m where m0: "getitem (?fill (?norm d3)) ''model'' = [m]"
      and m: "str_accessor m = Inr m"
      and df': "df' = setitem (?fill (?norm d3)) ''brand'' (str_get0 (str_split m))"
      using brand by blast
    have "getitem (?norm d3) ''model'' = [m]"
      using m0 by (subst (asm) getitem_fill_other) simp_all
    then have "getitem (?norm d2) ''model'' = [m]"
      using d3 in3 name_neq(3) by (simp add: getitem_normalized_setitem)
    then have "getitem (?norm d1) ''model'' = [m]"
      using d2 in2 name_neq(2) by (simp add: getitem_normalized_setitem)
    then have gm: "getitem (?norm df) ''model'' = [m]"
      using d1 in1 name_neq(1) by (simp add: getitem_normalized_setitem)
    show ?r using p gr r gs s rt gm m df' d1 d2 d3 by blast
  next
    assume ?r
    then obtain p p' r r' s s' m where
      p: "getitem df ''Price'' = [p]" "str_accessor p = Inr p"
        "astype_float (str_replace '','' [] (str_replace rupee [] p)) = Inr p'"
      and r: "getitem df ''Ram'' = [r]" "str_accessor r = Inr r"
        "astype_float (str_extract_digits r) = Inr r'"
      and s: "getitem df ''SSD'' = [s]" "str_accessor s = Inr s"
        "astype_float (str_extract_digits s) = Inr s'"
      and rt: "''rating'' \<in> set (map normalize_name (map fst df))"
      and m: "getitem (?norm df) ''model'' = [m]" "str_accessor m = Inr m"
      and df': "df' = setitem (?fill (?norm
          (setitem (setitem (setitem df ''Price'' p') ''Ram'' r') ''SSD'' s')))
          ''brand'' (str_get0 (str_split m))"
      by blast
    define d1 where "d1 = setitem df ''Price'' p'"
    define d2 where "d2 = setitem d1 ''Ram'' r'"
    define d3 where "d3 = setitem d2 ''SSD'' s'"
    have s1: "clean_price df = Inr d1" using p d1_def clean_price_Inr_iff by blast
    have r0: "getitem d1 ''Ram'' = [r]" using r(1) d1_def by (simp add: getitem_setitem_other)
    then have s2: "extract_numeric ''Ram'' d1 = Inr d2"
      using r(2,3) d2_def extract_numeric_Inr_iff by blast
    have s0: "getitem d2 ''SSD'' = [s]"
      using s(1) d1_def d2_def by (simp add: getitem_setitem_other)
    then have s3: "extract_numeric ''SSD'' d2 = Inr d3"
      using s(2,3) d3_def extract_numeric_Inr_iff by blast
    have in1: "''Price'' \<in> set (map fst df)" using p(1) by (rule getitem_present)
    have in2: "''Ram'' \<in> set (map fst d1)" using r0 by (rule getitem_present)
    have in3: "''SSD'' \<in> set (map fst d2)" using s0 by (rule getitem_present)
    have names: "map fst d3 = map fst df"
      using d1_def d2_def d3_def in1 in2 in3 by (simp add: setitem_names_present)
    have s5: "fill_rating (?norm d3) = Inr (?fill (?norm d3))"
      using rt rating[of "?norm d3"] names[symmetric] by (simp add: comp_def)
    have "getitem (?norm d1) ''model'' = [m]"
      using m(1) d1_def in1 name_neq(1) by (simp add: getitem_normalized_setitem)
    then have "getitem (?norm d2) ''model'' = [m]"
      using d2_def in2 name_neq(2) by (simp add: getitem_normalized_setitem)
    then have "getitem (?norm d3) ''model'' = [m]"
      using d3_def in3 name_neq(3) by (simp add: getitem_normalized_setitem)
    then have "getitem (?fill (?norm d3)) ''model'' = [m]"
      by (subst getitem_fill_other) simp_all
    then have s6: "derive_brand (?fill (?norm d3)) = Inr df'"
      using m(2) df' brand d1_def d2_def d3_def by blast
    show ?l using steps s1 s2 s3 s5 s6 by blast
  qed
qed

lemma clean_listing5: "clean_table listing5 = Inr cleaned5"
  by (simp add: listing5_def cleaned5_def str_eval float_eval table_eval clean_eval)

lemma clean_listing4: "clean_table listing4 = Inl (KeyError ''Price'')"
  by (simp add: listing4_def str_eval float_eval table_eval clean_eval)

lemma setitem_names:
  "map fst (setitem df k c) = map fst df @ (if k \<in> set (map fst df) then [] else [k])"
  by (auto simp: setitem_def)

lemma names_fill_norm:
  "map fst (map (\<lambda>p. if fst p = ''rating'' then (fst p, fillna0 (snd p)) else p)
                   (map (\<lambda>p. (normalize_name (fst p), snd p)) t))
           = map normalize_name (map fst t)"
  by (induction t) simp_all

lemma clean_table_names:
  assumes "clean_table df = Inr df'"
  shows "map fst df' = map normalize_name (map fst df)
           @ (if ''brand'' \<in> set (map normalize_name (map fst df)) then [] else [''brand''])"
proof -
  from assms obtain p p' r r' s s' m where
    g: "getitem df ''Price'' = [p]" "getitem df ''Ram'' = [r]" "getitem df ''SSD'' = [s]"
    and df': "df' = setitem
                (map (\<lambda>p. if fst p = ''rating'' then (fst p, fillna0 (snd p)) else p)
                   (map (\<lambda>p. (normalize_name (fst p), snd p))
                      (setitem (setitem (setitem df ''Price'' p') ''Ram'' r') ''SSD'' s')))
                ''brand'' (str_get0 (str_split m))"
    unfolding clean_table_Inr_iff by blast
  have in1: "''Price'' \<in> set (map fst df)" and in2: "''Ram'' \<in> set (map fst df)"
    and in3: "''SSD'' \<in> set (map fst df)"
    using g getitem_present by blast+
  have n1: "map fst (setitem df ''Price'' p') = map fst df"
    using in1 by (rule setitem_names_present)
  have n2: "map fst (setitem (setitem df ''Price'' p') ''Ram'' r') = map fst df"
    using in2 n1 setitem_names_present[of "''Ram''" "setitem df ''Price'' p'" r'] by simp
  have n3: "map fst (setitem (setitem (setitem df ''Price'' p') ''Ram'' r') ''SSD'' s') = map fst df"
    using in3 n2 setitem_names_present[of "''SSD''" "setitem (setitem df ''Price'' p') ''Ram'' r'" s']
    by simp
  let ?t = "map (\<lambda>p. if fst p = ''rating'' then (fst p, fillna0 (snd p)) else p)
                   (map (\<lambda>p. (normalize_name (fst p), snd p))
                      (setitem (setitem (setitem df ''Price'' p') ''Ram'' r') ''SSD'' s'))"
  have t: "map fst ?t = map normalize_name (map fst df)"
    unfolding names_fill_norm n3 by (rule refl)
  have "map fst df' = map fst ?t @ (if ''brand'' \<in> set (map fst ?t) then [] else [''brand''])"
    unfolding df' by (rule setitem_names)
  then show ?thesis unfolding t .
qed

text \<open>
  C7, as the code has it.  Cleaning accepts a table exactly when it has one column
  labelled \<^verbatim>\<open>Price\<close>, one labelled \<^verbatim>\<open>Ram\<close> and one labelled \<^verbatim>\<open>SSD\<close>, spelt
  exactly so, each holding strings, with every price string readable by \<^verbatim>\<open>float\<close>
  once rupee signs and commas are removed; a column whose normalised label is
  \<^verbatim>\<open>rating\<close>; and one column whose normalised label is \<^verbatim>\<open>model\<close>, holding strings.
  On success the labels of the cleaned table are the normalised labels of the raw
  one (lower case, every space replaced by an underscore), followed by \<^verbatim>\<open>brand\<close>
  unless that label is already there.
\<close>

theorem column_name_matching:
  "((\<exists>df'. clean_table df = Inr df') \<longleftrightarrow>
      (\<exists>p. getitem df ''Price'' = [p] \<and> str_accessor p = Inr p \<and>
           (\<forall>s. Str s \<in> set p \<longrightarrow>
                py_float (replace_all '','' [] (replace_all rupee [] s)) \<noteq> None))
    \<and> (\<exists>r. getitem df ''Ram'' = [r] \<and> str_accessor r = Inr r)
    \<and> (\<exists>s. getitem df ''SSD'' = [s] \<and> str_accessor s = Inr s)
    \<and> ''rating'' \<in> set (map normalize_name (map fst df))
    \<and> (\<exists>m. getitem (map (\<lambda>p. (normalize_name (fst p), snd p)) df) ''model'' = [m] \<and>
           str_accessor m = Inr m))
   \<and> (\<forall>df'. clean_table df = Inr df' \<longrightarrow>
         map fst df' = map normalize_name (map fst df)
           @ (if ''brand'' \<in> set (map normalize_name (map fst df)) then [] else [''brand'']))"
proof -
  have "(\<exists>df'. clean_table df = Inr df') \<longleftrightarrow>
      (\<exists>p. getitem df ''Price'' = [p] \<and> str_accessor p = Inr p \<and>
           (\<forall>s. Str s \<in> set p \<longrightarrow>
                py_float (replace_all '','' [] (replace_all rupee [] s)) \<noteq> None))
    \<and> (\<exists>r. getitem df ''Ram'' = [r] \<and> str_accessor r = Inr r)
    \<and> (\<exists>s. getitem df ''SSD'' = [s] \<and> str_accessor s = Inr s)
    \<and> ''rating'' \<in> set (map normalize_name (map fst df))
    \<and> (\<exists>m. getitem (map (\<lambda>p. (normalize_name (fst p), snd p)) df) ''model'' = [m] \<and>
           str_accessor m = Inr m)"
    (is "?l \<longleftrightarrow> ?r")
  proof
    assume ?l
    then obtain p p' r s m where a:
      "getitem df ''Price'' = [p]" "str_accessor p = Inr p"
      "astype_float (str_replace '','' [] (str_replace rupee [] p)) = Inr p'"
      "getitem df ''Ram'' = [r]" "str_accessor r = Inr r"
      "getitem df ''SSD'' = [s]" "str_accessor s = Inr s"
      "''rating'' \<in> set (map normalize_name (map fst df))"
      "getitem (map (\<lambda>p. (normalize_name (fst p), snd p)) df) ''model'' = [m]"
      "str_accessor m = Inr m"
      unfolding clean_table_Inr_iff by blast
    from a(3) have "\<forall>s. Str s \<in> set p \<longrightarrow>
                py_float (replace_all '','' [] (replace_all rupee [] s)) \<noteq> None"
      using price_chain_total[of p] by blast
    with a(1,2) have 1: "\<exists>p. getitem df ''Price'' = [p] \<and> str_accessor p = Inr p \<and>
           (\<forall>s. Str s \<in> set p \<longrightarrow>
                py_float (replace_all '','' [] (replace_all rupee [] s)) \<noteq> None)" by blast
    have 2: "\<exists>r. getitem df ''Ram'' = [r] \<and> str_accessor r = Inr r" using a(4,5) by blast
    have 3: "\<exists>s. getitem df ''SSD'' = [s] \<and> str_accessor s = Inr s" using a(6,7) by blast
    have 4: "\<exists>m. getitem (map (\<lambda>p. (normalize_name (fst p), snd p)) df) ''model'' = [m] \<and>
           str_accessor m = Inr m" using a(9,10) by blast
    show ?r using 1 2 3 a(8) 4 by (intro conjI)
  next
    assume r: ?r
    then obtain p where p: "getitem df ''Price'' = [p]" "str_accessor p = Inr p"
      "\<forall>s. Str s \<in> set p \<longrightarrow> py_float (replace_all '','' [] (replace_all rupee [] s)) \<noteq> None"
      by blast
    from r obtain r0 where r0: "getitem df ''Ram'' = [r0]" "str_accessor r0 = Inr r0" by blast
    from r obtain s0 where s0: "getitem df ''SSD'' = [s0]" "str_accessor s0 = Inr s0" by blast
    from r have rt: "''rating'' \<in> set (map normalize_name (map fst df))" by blast
    from r obtain m where m: "getitem (map (\<lambda>p. (normalize_name (fst p), snd p)) df) ''model'' = [m]"
      "str_accessor m = Inr m" by blast
    from p(3) obtain p' where
      p': "astype_float (str_replace '','' [] (str_replace rupee [] p)) = Inr p'"
      using price_chain_total[of p] by blast
    obtain r' where r': "astype_float (str_extract_digits r0) = Inr r'"
      using extract_never_fails by blast
    obtain s' where s': "astype_float (str_extract_digits s0) = Inr s'"
      using extract_never_fails by blast
    let ?df' = "setitem
                (map (\<lambda>p. if fst p = ''rating'' then (fst p, fillna0 (snd p)) else p)
                   (map (\<lambda>p. (normalize_name (fst p), snd p))
                      (setitem (setitem (setitem df ''Price'' p') ''Ram'' r') ''SSD'' s')))
                ''brand'' (str_get0 (str_split m))"
    have "clean_table df = Inr ?df'"
      unfolding clean_table_Inr_iff
      apply (rule exI[of _ p], rule exI[of _ p'], rule exI[of _ r0], rule exI[of _ r'])
      apply (rule exI[of _ s0], rule exI[of _ s'], rule exI[of _ m])
      using p(1,2) p' r0 r' s0 s' rt m by (intro conjI refl)
    then show ?l by (rule exI)
  qed
  moreover have "\<forall>df'. clean_table df = Inr df' \<longrightarrow>
         map fst df' = map normalize_name (map fst df)
           @ (if ''brand'' \<in> set (map normalize_name (map fst df)) then [] else [''brand''])"
    using clean_table_names by blast
  ultimately show ?thesis by (rule conjI)
qed

theorem column_name_matching_witness:
  "(\<exists>df'. clean_table listing5 = Inr df')
   \<and> map fst listing5 = [''Price'', ''Ram'', ''SSD'', ''RATING'', ''MoDeL'', ''Core Type'']
   \<and> map fst cleaned5 = [''price'', ''ram'', ''ssd'', ''rating'', ''model'', ''core_type'', ''brand'']"
proof -
  have n: "map normalize_name (map fst listing5)
             = [''price'', ''ram'', ''ssd'', ''rating'', ''model'', ''core_type'']"
    by (simp add: listing5_def normalize_name_def lower_def lower_char_def starts_with_def)
  have b: "''brand'' \<notin> set [''price'', ''ram'', ''ssd'', ''rating'', ''model'', ''core_type'']"
    by simp
  from column_name_matching[of listing5] clean_listing5
  have "(\<exists>df'. clean_table listing5 = Inr df') \<and>
     map fst cleaned5 = map normalize_name (map fst listing5)
       @ (if ''brand'' \<in> set (map normalize_name (map fst listing5)) then [] else [''brand''])"
    by blast
  then show ?thesis unfolding n using b by (simp add: listing5_def)
qed

text \<open>
  C7 as stated fails: \<open>listing4\<close> has the five required columns, the first under the
  label \<^verbatim>\<open>price\<close> in lower case, and cleaning raises \<^verbatim>\<open>KeyError: 'Price'\<close>.
\<close>

theorem lower_case_price_counterexample:
  "map lower (map fst listing4) = map lower [''Price'', ''Ram'', ''SSD'', ''Rating'', ''Model'']
   \<and> clean_table listing4 = Inl (KeyError ''Price'')"
  using clean_listing4 by (simp add: listing4_def lower_def lower_char_def)

subsection \<open>Categories\<close>

lemmas category_eval = str_contains_def loc_set_def set_general_def tag_contains_def
  tag_apple_def category_steps_def categorize_def

lemma clean_listing6: "clean_table listing6 = Inr cleaned6"
  by (simp add: listing6_def cleaned6_def str_eval float_eval table_eval clean_eval)

lemma categorize_cleaned6: "categorize cleaned6 = Inr tagged6"
  by (simp add: cleaned6_def tagged6_def str_eval table_eval category_eval)

lemma categorize_cleaned7: "categorize cleaned7 = Inr tagged7"
  by (simp add: cleaned7_def tagged7_def str_eval table_eval category_eval)

lemma bool_mask_Inr:
  "bool_mask xs = Inr bs \<Longrightarrow> length bs = length xs \<and> (\<forall>i<length xs. xs ! i = Some (bs ! i))"
proof (induction xs arbitrary: bs)
  case Nil
  then show ?case by simp
next
  case (Cons x xs)
  from Cons.prems obtain b bs' where x: "x = Some b" and r: "bool_mask xs = Inr bs'"
    and bs: "bs = b # bs'"
    by (auto split: option.splits sum.splits)
  from Cons.IH[OF r] show ?case using x bs by (auto simp: nth_Cons')
qed

lemma contains_mask:
  assumes "bool_mask (str_contains alts col) = Inr bs"
  shows "length bs = length col"
    and "\<And>i s. i < length col \<Longrightarrow> col ! i = Str s \<Longrightarrow> bs ! i = search_icase alts s"
proof -
  from bool_mask_Inr[OF assms] have l: "length bs = length (str_contains alts col)"
    and n: "\<forall>i<length (str_contains alts col). str_contains alts col ! i = Some (bs ! i)"
    by simp_all
  show "length bs = length col" using l by (simp add: str_contains_def)
  show "bs ! i = search_icase alts s" if "i < length col" "col ! i = Str s" for i s
  proof -
    have "i < length (str_contains alts col)" using that(1) by (simp add: str_contains_def)
    with n have "str_contains alts col ! i = Some (bs ! i)" by blast
    then show ?thesis using that by (simp add: str_contains_def)
  qed
qed


text \<open>The column written by \<^verbatim>\<open>df.loc[mask, k] = v\<close>, and what it leaves alone.\<close>

lemma loc_set_column:
  assumes "\<exists>p\<in>set t. fst p = k" and "\<And>p. p \<in> set t \<Longrightarrow> fst p = k \<Longrightarrow> snd p = col"
  shows "\<exists>p\<in>set (loc_set t msk k v). fst p = k"
    and "\<And>p. p \<in> set (loc_set t msk k v) \<Longrightarrow> fst p = k \<Longrightarrow>
           snd p = map (\<lambda>(b, c). if b then v else c) (zip msk col)"
    and "\<And>k'. k' \<noteq> k \<Longrightarrow> getitem (loc_set t msk k v) k' = getitem t k'"
proof -
  have in_t: "k \<in> set (map fst t)" using assms(1) by auto
  then have ls: "loc_set t msk k v =
      map (\<lambda>p. if fst p = k
                 then (k, map (\<lambda>(b, c). if b then v else c) (zip msk (snd p))) else p) t"
    by (simp add: loc_set_def)
  from assms(1) obtain q where q: "q \<in> set t" "fst q = k" by blast
  then have "(k, map (\<lambda>(b, c). if b then v else c) (zip msk (snd q))) \<in> set (loc_set t msk k v)"
    unfolding ls by (force simp: image_iff)
  then show "\<exists>p\<in>set (loc_set t msk k v). fst p = k" by force
  show "snd p = map (\<lambda>(b, c). if b then v else c) (zip msk col)"
    if "p \<in> set (loc_set t msk k v)" "fst p = k" for p
  proof -
    from that(1) have "p \<in> (\<lambda>p. if fst p = k
                 then (k, map (\<lambda>(b, c). if b then v else c) (zip msk (snd p))) else p) ` set t"
      unfolding ls by simp
    then obtain q where p: "p = (if fst q = k
                   then (k, map (\<lambda>(b, c). if b then v else c) (zip msk (snd q))) else q)"
      and q: "q \<in> set t"
      by (rule imageE)
    show ?thesis
    proof (cases "fst q = k")
      case True
      then show ?thesis using p assms(2)[OF q True] by simp
    next
      case False
      then show ?thesis using p that(2) by simp
    qed
  qed
  show "getitem (loc_set t msk k v) k' = getitem t k'" if "k' \<noteq> k" for k'
    unfolding ls using that by (intro getitem_map_other[where k = k]) simp_all
qed

lemma tag_contains_Inr:
  assumes "tag_contains alts label t = Inr t'"
  obtains mc msk where "getitem t ''model'' = [mc]"
    "bool_mask (str_contains alts mc) = Inr msk"
    "t' = loc_set t msk ''category'' (Str label)"
  using assms series_str_Inr_iff[of t "''model''"]
  by (auto simp: tag_contains_def split: sum.splits)

lemma tag_apple_Inr:
  assumes "tag_apple t = Inr t'"
  obtains bc where "getitem t ''brand'' = [bc]"
    "t' = loc_set t (map (\<lambda>x. x = Str ''Apple'') bc) ''category'' (Str ''Apple'')"
  using assms by (auto simp: tag_apple_def split: list.splits)

lemma categorize_Inr:
  assumes "categorize df = Inr df'"
  obtains t1 t2 where
    "tag_contains [''Gaming''] ''Gaming''
       (setitem df ''category'' (replicate (nrows df) (Str ''General''))) = Inr t1"
    "tag_apple t1 = Inr t2"
    "tag_contains [''Ultrabook'', ''Thin'', ''Slim''] ''Ultrabook'' t2 = Inr df'"
  using assms
  by (auto simp: categorize_def category_steps_def set_general_def split: sum.splits)

lemma wf_table_length:
  "wf_table df \<Longrightarrow> getitem df k = [c] \<Longrightarrow> length c = nrows df"
proof -
  assume wf: "wf_table df" and g: "getitem df k = [c]"
  have "c \<in> set (getitem df k)" using g by simp
  then obtain p where "p \<in> set df" "snd p = c" by (auto simp: getitem_def)
  then show ?thesis using wf by (auto simp: wf_table_def list_all_iff)
qed

lemma tag_nth:
  "i < length msk \<Longrightarrow> i < length col \<Longrightarrow>
     map (\<lambda>(b, c). if b then v else c) (zip msk col) ! i = (if msk ! i then v else col ! i)"
  by simp

lemma tag_length:
  "length msk = n \<Longrightarrow> length col = n \<Longrightarrow>
     length (map (\<lambda>(b, c). if b then v else c) (zip msk col)) = n"
  by simp

text \<open>The category column after the four statements, row by row.\<close>

lemma categorize_column:
  assumes ok: "categorize df = Inr df'" and wf: "wf_table df"
    and gm: "getitem df ''model'' = [mc]" and gb: "getitem df ''brand'' = [bc]"
    and i: "i < nrows df" and m: "mc ! i = Str s"
  shows "\<exists>p\<in>set df'. fst p = ''category''"
    and "\<And>p. p \<in> set df' \<Longrightarrow> fst p = ''category'' \<Longrightarrow>
      snd p ! i = Str (if search_icase [''Ultrabook'', ''Thin'', ''Slim''] s then ''Ultrabook''
                       else if bc ! i = Str ''Apple'' then ''Apple''
                       else if search_icase [''Gaming''] s then ''Gaming''
                       else ''General'')"
proof -
  let ?G = "replicate (nrows df) (Str ''General'')"
  let ?t0 = "setitem df ''category'' ?G"
  have neq: "''model'' \<noteq> ''category''" "''brand'' \<noteq> ''category''"
    "''category'' \<noteq> ''model''" "''category'' \<noteq> ''brand''" by simp_all
  from ok obtain t1 t2 where
    s2: "tag_contains [''Gaming''] ''Gaming'' ?t0 = Inr t1" and s3: "tag_apple t1 = Inr t2"
    and s4: "tag_contains [''Ultrabook'', ''Thin'', ''Slim''] ''Ultrabook'' t2 = Inr df'"
    by (rule categorize_Inr)
  have lm: "length mc = nrows df" using wf gm by (rule wf_table_length)
  have lb: "length bc = nrows df" using wf gb by (rule wf_table_length)
  have "(''category'', ?G) \<in> set ?t0" by (rule setitem_member)
  then have c0: "\<exists>p\<in>set ?t0. fst p = ''category''" by force
  have v0: "\<And>p. p \<in> set ?t0 \<Longrightarrow> fst p = ''category'' \<Longrightarrow> snd p = ?G"
    by (rule setitem_snd)
  have gm0: "getitem ?t0 ''model'' = [mc]"
    unfolding getitem_setitem_other[OF neq(3)] by (rule gm)
  have gb0: "getitem ?t0 ''brand'' = [bc]"
    unfolding getitem_setitem_other[OF neq(4)] by (rule gb)
  from s2 obtain mc1 g where g1: "getitem ?t0 ''model'' = [mc1]"
    and g2: "bool_mask (str_contains [''Gaming''] mc1) = Inr g"
    and t1: "t1 = loc_set ?t0 g ''category'' (Str ''Gaming'')"
    by (rule tag_contains_Inr)
  have "mc1 = mc" using g1 gm0 by simp
  then have g: "bool_mask (str_contains [''Gaming''] mc) = Inr g" using g2 by simp
  let ?C1 = "map (\<lambda>(b, c). if b then Str ''Gaming'' else c) (zip g ?G)"
  have c1: "\<exists>p\<in>set t1. fst p = ''category''"
    unfolding t1 using c0 v0 by (rule loc_set_column(1))
  have v1: "\<And>p. p \<in> set t1 \<Longrightarrow> fst p = ''category'' \<Longrightarrow> snd p = ?C1"
    unfolding t1 using c0 v0 by (rule loc_set_column(2))
  have gm1: "getitem t1 ''model'' = [mc]"
    unfolding t1 using loc_set_column(3)[OF c0 v0 neq(1)] gm0 by (rule trans)
  have gb1: "getitem t1 ''brand'' = [bc]"
    unfolding t1 using loc_set_column(3)[OF c0 v0 neq(2)] gb0 by (rule trans)
  from s3 obtain bc2 where b1: "getitem t1 ''brand'' = [bc2]"
    and b2: "t2 = loc_set t1 (map (\<lambda>x. x = Str ''Apple'') bc2) ''category'' (Str ''Apple'')"
    by (rule tag_apple_Inr)
  have "bc2 = bc" using b1 gb1 by simp
  then have t2: "t2 = loc_set t1 (map (\<lambda>x. x = Str ''Apple'') bc) ''category'' (Str ''Apple'')"
    using b2 by simp
  let ?a = "map (\<lambda>x. x = Str ''Apple'') bc"
  let ?C2 = "map (\<lambda>(b, c). if b then Str ''Apple'' else c) (zip ?a ?C1)"
  have c2: "\<exists>p\<in>set t2. fst p = ''category''"
    unfolding t2 using c1 v1 by (rule loc_set_column(1))
  have v2: "\<And>p. p \<in> set t2 \<Longrightarrow> fst p = ''category'' \<Longrightarrow> snd p = ?C2"
    unfolding t2 using c1 v1 by (rule loc_set_column(2))
  have gm2: "getitem t2 ''model'' = [mc]"
    unfolding t2 using loc_set_column(3)[OF c1 v1 neq(1)] gm1 by (rule trans)
  from s4 obtain mc3 u where u1: "getitem t2 ''model'' = [mc3]"
    and u2: "bool_mask (str_contains [''Ultrabook'', ''Thin'', ''Slim''] mc3) = Inr u"
    and df': "df' = loc_set t2 u ''category'' (Str ''Ultrabook'')"
    by (rule tag_contains_Inr)
  have "mc3 = mc" using u1 gm2 by simp
  then have u: "bool_mask (str_contains [''Ultrabook'', ''Thin'', ''Slim''] mc) = Inr u"
    using u2 by simp
  show "\<exists>p\<in>set df'. fst p = ''category''"
    unfolding df' using c2 v2 by (rule loc_set_column(1))
  have v3: "\<And>p. p \<in> set df' \<Longrightarrow> fst p = ''category'' \<Longrightarrow>
      snd p = map (\<lambda>(b, c). if b then Str ''Ultrabook'' else c) (zip u ?C2)"
    unfolding df' using c2 v2 by (rule loc_set_column(2))
  have lg: "length g = nrows df" using contains_mask(1)[OF g] lm by simp
  have lu: "length u = nrows df" using contains_mask(1)[OF u] lm by simp
  have im: "i < length mc" using i lm by simp
  have gi: "g ! i = search_icase [''Gaming''] s"
    using g im m by (rule contains_mask(2))
  have ui: "u ! i = search_icase [''Ultrabook'', ''Thin'', ''Slim''] s"
    using u im m by (rule contains_mask(2))
  have la: "length ?a = nrows df" using lb by simp
  have lG: "length ?G = nrows df" by simp
  have lC1: "length ?C1 = nrows df" using lg lG by (rule tag_length)
  have lC2: "length ?C2 = nrows df" using la lC1 by (rule tag_length)
  have G: "?G ! i = Str ''General''" using i by simp
  have a: "?a ! i = (bc ! i = Str ''Apple'')" using i lb by simp
  have C1: "?C1 ! i = (if g ! i then Str ''Gaming'' else ?G ! i)"
    using i lg lG by (intro tag_nth) simp_all
  have C2: "?C2 ! i = (if ?a ! i then Str ''Apple'' else ?C1 ! i)"
    using i la lC1 by (intro tag_nth) simp_all
  show "snd p ! i = Str (if search_icase [''Ultrabook'', ''Thin'', ''Slim''] s then ''Ultrabook''
                       else if bc ! i = Str ''Apple'' then ''Apple''
                       else if search_icase [''Gaming''] s then ''Gaming''
                       else ''General'')"
    if "p \<in> set df'" "fst p = ''category''" for p
  proof -
    have "snd p = map (\<lambda>(b, c). if b then Str ''Ultrabook'' else c) (zip u ?C2)"
      using that by (rule v3)
    moreover have "map (\<lambda>(b, c). if b then Str ''Ultrabook'' else c) (zip u ?C2) ! i
        = (if u ! i then Str ''Ultrabook'' else ?C2 ! i)"
      using i lu lC2 by (intro tag_nth) simp_all
    ultimately have "snd p ! i = (if u ! i then Str ''Ultrabook'' else ?C2 ! i)" by simp
    also have "\<dots> = Str (if search_icase [''Ultrabook'', ''Thin'', ''Slim''] s then ''Ultrabook''
                       else if bc ! i = Str ''Apple'' then ''Apple''
                       else if search_icase [''Gaming''] s then ''Gaming''
                       else ''General'')"
      unfolding C2 C1 G a gi ui by (simp only: if_distrib[of Str])
    finally show ?thesis .
  qed
qed


text \<open>
  C1, as the code has it.  Every record starts as \<^verbatim>\<open>General\<close>, and the three rules
  are applied in the order Gaming, Apple, Ultrabook, each overwriting the tag of
  the rows it matches.  So in a table that the step accepts: a record whose model
  matches \<^verbatim>\<open>Ultrabook\<close>, \<^verbatim>\<open>Thin\<close> or \<^verbatim>\<open>Slim\<close> ends as \<^verbatim>\<open>Ultrabook\<close>, whatever
  else it matches; a record of brand \<^verbatim>\<open>Apple\<close> whose model does not match those
  ends as \<^verbatim>\<open>Apple\<close>, also when its model contains \<^verbatim>\<open>Gaming\<close>; a record that
  matches neither and whose model contains \<^verbatim>\<open>Gaming\<close> ends as \<^verbatim>\<open>Gaming\<close>; every
  other record stays \<^verbatim>\<open>General\<close>.  Letters are compared without case.
\<close>

theorem category_priority:
  assumes "categorize df = Inr df'" and "wf_table df"
    and "getitem df ''model'' = [mc]" and "getitem df ''brand'' = [bc]"
    and "i < nrows df" and "mc ! i = Str s"
  shows "(\<forall>p\<in>set (setitem df ''category'' (replicate (nrows df) (Str ''General''))).
            fst p = ''category'' \<longrightarrow> snd p ! i = Str ''General'')
       \<and> (\<exists>p\<in>set df'. fst p = ''category'')
       \<and> (\<forall>p\<in>set df'. fst p = ''category'' \<longrightarrow>
            (search_icase [''Ultrabook'', ''Thin'', ''Slim''] s \<longrightarrow> snd p ! i = Str ''Ultrabook'')
          \<and> (\<not> search_icase [''Ultrabook'', ''Thin'', ''Slim''] s \<and> bc ! i = Str ''Apple''
                \<longrightarrow> snd p ! i = Str ''Apple'')
          \<and> (\<not> search_icase [''Ultrabook'', ''Thin'', ''Slim''] s \<and> bc ! i \<noteq> Str ''Apple'' \<and>
              search_icase [''Gaming''] s \<longrightarrow> snd p ! i = Str ''Gaming'')
          \<and> (\<not> search_icase [''Ultrabook'', ''Thin'', ''Slim''] s \<and> bc ! i \<noteq> Str ''Apple'' \<and>
              \<not> search_icase [''Gaming''] s \<longrightarrow> snd p ! i = Str ''General''))"
proof (intro conjI ballI impI)
  fix p
  assume "p \<in> set (setitem df ''category'' (replicate (nrows df) (Str ''General'')))"
    and "fst p = ''category''"
  then have "snd p = replicate (nrows df) (Str ''General'')" by (rule setitem_snd)
  then show "snd p ! i = Str ''General''" using assms(5) by simp
next
  show "\<exists>p\<in>set df'. fst p = ''category''" using assms by (rule categorize_column(1))
next
  fix p assume p: "p \<in> set df'" "fst p = ''category''"
  note v = categorize_column(2)[OF assms p]
  show "snd p ! i = Str ''Ultrabook''" if "search_icase [''Ultrabook'', ''Thin'', ''Slim''] s"
    using v that by simp
  show "snd p ! i = Str ''Apple''"
    if "\<not> search_icase [''Ultrabook'', ''Thin'', ''Slim''] s \<and> bc ! i = Str ''Apple''"
    using v that by simp
  show "snd p ! i = Str ''Gaming''"
    if "\<not> search_icase [''Ultrabook'', ''Thin'', ''Slim''] s \<and> bc ! i \<noteq> Str ''Apple'' \<and>
              search_icase [''Gaming''] s"
    using v that by simp
  show "snd p ! i = Str ''General''"
    if "\<not> search_icase [''Ultrabook'', ''Thin'', ''Slim''] s \<and> bc ! i \<noteq> Str ''Apple'' \<and>
              \<not> search_icase [''Gaming''] s"
    using v that by simp
qed

lemma search_examples:
  "search_icase [''Gaming''] ''HP Gaming 15''"
  "\<not> search_icase [''Ultrabook'', ''Thin'', ''Slim''] ''HP Gaming 15''"
  "search_icase [''Gaming''] ''Apple GAMING''"
  "\<not> search_icase [''Ultrabook'', ''Thin'', ''Slim''] ''Apple GAMING''"
  "search_icase [''Gaming''] ''Asus Gaming slim''"
  "search_icase [''Ultrabook'', ''Thin'', ''Slim''] ''Asus Gaming slim''"
  "\<not> search_icase [''Gaming''] ''Dell 15''"
  "\<not> search_icase [''Ultrabook'', ''Thin'', ''Slim''] ''Dell 15''"
  "search_icase [''Gaming''] ''Apple Gaming Slim''"
  "search_icase [''Ultrabook'', ''Thin'', ''Slim''] ''Apple Gaming Slim''"
  by (simp_all add: str_eval)

theorem category_priority_witness:
  "categorize cleaned7 = Inr tagged7
   \<and> (''category'', [Str ''Gaming'', Str ''Apple'', Str ''Ultrabook'', Str ''General'']) \<in> set tagged7
   \<and> [Str ''Gaming'', Str ''Apple'', Str ''Ultrabook'', Str ''General''] ! 1 = Str ''Apple''
   \<and> [Str ''Gaming'', Str ''Apple'', Str ''Ultrabook'', Str ''General''] ! 2 = Str ''Ultrabook''"
proof -
  let ?mc = "[Str ''HP Gaming 15'', Str ''Apple GAMING'', Str ''Asus Gaming slim'', Str ''Dell 15'']"
  let ?bc = "[Str ''HP'', Str ''Apple'', Str ''Asus'', Str ''Dell'']"
  let ?p = "(''category'', [Str ''Gaming'', Str ''Apple'', Str ''Ultrabook'', Str ''General''])"
  have wf: "wf_table cleaned7" by (simp add: cleaned7_def wf_table_def nrows_def)
  have gm: "getitem cleaned7 ''model'' = [?mc]" and gb: "getitem cleaned7 ''brand'' = [?bc]"
    by (simp_all add: cleaned7_def getitem_def)
  have n: "1 < nrows cleaned7" "2 < nrows cleaned7" by (simp_all add: cleaned7_def nrows_def)
  have c: "?mc ! 1 = Str ''Apple GAMING''" "?mc ! 2 = Str ''Asus Gaming slim''"
    "?bc ! 1 = Str ''Apple''" by simp_all
  have p: "?p \<in> set tagged7" "fst ?p = ''category''" by (simp_all add: tagged7_def)
  from category_priority[OF categorize_cleaned7 wf gm gb n(1) c(1)] p c(3) search_examples(3,4)
  have r1: "snd ?p ! 1 = Str ''Apple''" by blast
  from category_priority[OF categorize_cleaned7 wf gm gb n(2) c(2)] p search_examples(5,6)
  have r2: "snd ?p ! 2 = Str ''Ultrabook''" by blast
  show ?thesis using categorize_cleaned7 p(1) r1 r2 by simp
qed

text \<open>
  C1 as stated fails in its second clause: the model \<^verbatim>\<open>Apple Gaming Slim\<close> contains
  \<^verbatim>\<open>Gaming\<close> and its brand is \<^verbatim>\<open>Apple\<close>, yet its final category is \<^verbatim>\<open>Ultrabook\<close>,
  as the third clause says.
\<close>

theorem apple_gaming_slim_counterexample:
  "clean_table listing6 = Inr cleaned6 \<and> categorize cleaned6 = Inr tagged6
   \<and> cleaned6 ! 4 = (''model'', [Str ''Apple Gaming Slim''])
   \<and> search_icase [''Gaming''] ''Apple Gaming Slim''
   \<and> cleaned6 ! 5 = (''brand'', [Str ''Apple''])
   \<and> tagged6 ! 6 = (''category'', [Str ''Ultrabook''])
   \<and> Str ''Ultrabook'' \<noteq> Str ''Apple''"
  using clean_listing6 categorize_cleaned6 search_examples(9)
  by (simp add: cleaned6_def tagged6_def)

subsection \<open>What the two functions do to the tables they are given\<close>

lemma exec_at_frame:
  "exec_at a fs h = (h', r) \<Longrightarrow> length h' = length h \<and> (\<forall>b. b \<noteq> a \<longrightarrow> h' ! b = h ! b)"
proof (induction fs arbitrary: h)
  case Nil
  then show ?case by simp
next
  case (Cons f fs)
  show ?case
  proof (cases "f (h ! a)")
    case (Inl e)
    then show ?thesis using Cons.prems by simp
  next
    case (Inr t)
    then have "exec_at a fs (h[a := t]) = (h', r)" using Cons.prems by simp
    from Cons.IH[OF this] show ?thesis by simp
  qed
qed

lemma exec_at_run:
  "a < length h \<Longrightarrow> exec_at a fs h = (h', r) \<Longrightarrow>
     (case run_steps fs (h ! a) of
        Inl e \<Rightarrow> r = Some e
      | Inr t \<Rightarrow> r = None \<and> h' ! a = t)"
proof (induction fs arbitrary: h)
  case Nil
  then show ?case by simp
next
  case (Cons f fs)
  show ?case
  proof (cases "f (h ! a)")
    case (Inl e)
    then show ?thesis using Cons.prems by simp
  next
    case (Inr t)
    then have e: "exec_at a fs (h[a := t]) = (h', r)" using Cons.prems by simp
    have "a < length (h[a := t])" using Cons.prems(1) by simp
    from Cons.IH[OF this e] show ?thesis using Inr Cons.prems(1) by simp
  qed
qed

lemma clean_data_effect:
  assumes "df < length h"
  shows "take (length h) (fst (clean_data h df)) = h"
    and "length (fst (clean_data h df)) = Suc (length h)"
    and "clean_table (h ! df) = Inr t \<Longrightarrow>
           snd (clean_data h df) = Inr (length h) \<and> fst (clean_data h df) ! length h = t"
    and "clean_table (h ! df) = Inl e \<Longrightarrow> snd (clean_data h df) = Inl e"
proof -
  let ?h0 = "h @ [h ! df]"
  obtain h' r where e: "exec_at (length h) clean_steps ?h0 = (h', r)" by (cases "exec_at (length h) clean_steps ?h0")
  have cd: "clean_data h df = (h', case r of Some e \<Rightarrow> Inl e | None \<Rightarrow> Inr (length h))"
    using e by (simp add: clean_data_def Let_def split: option.splits)
  from exec_at_frame[OF e] have l: "length h' = Suc (length h)"
    and fr: "\<forall>b. b \<noteq> length h \<longrightarrow> h' ! b = ?h0 ! b" by simp_all
  have "take (length h) h' = h"
    using l fr by (intro nth_equalityI) (simp_all add: nth_append)
  then show "take (length h) (fst (clean_data h df)) = h" using cd by simp
  show "length (fst (clean_data h df)) = Suc (length h)" using cd l by simp
  have run: "case run_steps clean_steps (h ! df) of
        Inl e \<Rightarrow> r = Some e
      | Inr t \<Rightarrow> r = None \<and> h' ! length h = t"
    using exec_at_run[of "length h" ?h0 clean_steps h' r] e by simp
  show "snd (clean_data h df) = Inr (length h) \<and> fst (clean_data h df) ! length h = t"
    if "clean_table (h ! df) = Inr t"
    using run that cd by (simp add: clean_table_def)
  show "snd (clean_data h df) = Inl e" if "clean_table (h ! df) = Inl e"
    using run that cd by (simp add: clean_table_def)
qed

lemma analyze_categories_effect:
  assumes "df < length h"
  shows "length (fst (analyze_categories h df)) = length h"
    and "\<And>b. b \<noteq> df \<Longrightarrow> fst (analyze_categories h df) ! b = h ! b"
    and "categorize (h ! df) = Inr t \<Longrightarrow>
           snd (analyze_categories h df) = None \<and> fst (analyze_categories h df) ! df = t"
    and "categorize (h ! df) = Inl e \<Longrightarrow> snd (analyze_categories h df) = Some e"
proof -
  obtain h' r where e: "exec_at df category_steps h = (h', r)"
    by (cases "exec_at df category_steps h")
  have ac: "analyze_categories h df = (h', r)" using e by (simp add: analyze_categories_def)
  from exec_at_frame[OF e] show "length (fst (analyze_categories h df)) = length h"
    and "\<And>b. b \<noteq> df \<Longrightarrow> fst (analyze_categories h df) ! b = h ! b"
    using ac by simp_all
  note run = exec_at_run[OF assms e]
  show "snd (analyze_categories h df) = None \<and> fst (analyze_categories h df) ! df = t"
    if "categorize (h ! df) = Inr t"
    using run that ac by (simp add: categorize_def)
  show "snd (analyze_categories h df) = Some e" if "categorize (h ! df) = Inl e" for e
    using run that ac by (simp add: categorize_def)
qed

lemma loc_set_names:
  "k \<in> set (map fst t) \<Longrightarrow> map fst (loc_set t msk k v) = map fst t"
  by (auto simp: loc_set_def)

lemma categorize_has_category:
  assumes "categorize df = Inr df'"
  shows "''category'' \<in> set (map fst df')"
proof -
  let ?t0 = "setitem df ''category'' (replicate (nrows df) (Str ''General''))"
  from assms obtain t1 t2 where
    s2: "tag_contains [''Gaming''] ''Gaming'' ?t0 = Inr t1" and s3: "tag_apple t1 = Inr t2"
    and s4: "tag_contains [''Ultrabook'', ''Thin'', ''Slim''] ''Ultrabook'' t2 = Inr df'"
    by (rule categorize_Inr)
  have c0: "''category'' \<in> set (map fst ?t0)" by (simp add: setitem_names)
  from s2 obtain mc :: column and g where "t1 = loc_set ?t0 g ''category'' (Str ''Gaming'')"
    by (rule tag_contains_Inr)
  then have c1: "''category'' \<in> set (map fst t1)" using c0 loc_set_names by metis
  from s3 obtain bc where
    "t2 = loc_set t1 (map (\<lambda>x. x = Str ''Apple'') bc) ''category'' (Str ''Apple'')"
    by (rule tag_apple_Inr)
  then have c2: "''category'' \<in> set (map fst t2)" using c1 loc_set_names by metis
  from s4 obtain mc3 :: column and u where "df' = loc_set t2 u ''category'' (Str ''Ultrabook'')"
    by (rule tag_contains_Inr)
  then show ?thesis using c2 loc_set_names by metis
qed

text \<open>
  C6, as the code has it.  \<^verbatim>\<open>clean_data\<close> leaves every table that existed before
  the call as it was, the one it is given among them, whether it returns or
  raises; when it returns, the result is a reference to a newly allocated table
  that holds the cleaned data.  \<^verbatim>\<open>analyze_categories\<close> allocates nothing and returns
  no table: it writes the category column into the table it is given and leaves
  every other table as it was.
\<close>

theorem cleaning_frame:
  assumes "df < length h"
  shows "take (length h) (fst (clean_data h df)) = h
       \<and> length (fst (clean_data h df)) = Suc (length h)
       \<and> (\<forall>t. clean_table (h ! df) = Inr t \<longrightarrow>
             snd (clean_data h df) = Inr (length h) \<and> fst (clean_data h df) ! length h = t)
       \<and> (\<forall>e. clean_table (h ! df) = Inl e \<longrightarrow> snd (clean_data h df) = Inl e)
       \<and> length (fst (analyze_categories h df)) = length h
       \<and> (\<forall>b. b \<noteq> df \<longrightarrow> fst (analyze_categories h df) ! b = h ! b)
       \<and> (\<forall>t. categorize (h ! df) = Inr t \<longrightarrow>
             snd (analyze_categories h df) = None \<and> fst (analyze_categories h df) ! df = t \<and>
             ''category'' \<in> set (map fst (fst (analyze_categories h df) ! df)))"
  using clean_data_effect[OF assms] analyze_categories_effect[OF assms] categorize_has_category
  by (intro conjI allI impI) simp_all

theorem cleaning_frame_witness:
  "fst (clean_data [listing6] 0) ! 0 = listing6 \<and> fst (clean_data [listing6] 0) ! 1 = cleaned6
   \<and> snd (clean_data [listing6] 0) = Inr 1
   \<and> fst (analyze_categories [listing6, cleaned6] 1) ! 0 = listing6
   \<and> fst (analyze_categories [listing6, cleaned6] 1) ! 1 = tagged6
   \<and> snd (analyze_categories [listing6, cleaned6] 1) = None"
proof -
  have a: "0 < length [listing6]" "1 < length [listing6, cleaned6]" by simp_all
  have c: "clean_table ([listing6] ! 0) = Inr cleaned6" using clean_listing6 by simp
  have t: "categorize ([listing6, cleaned6] ! 1) = Inr tagged6" using categorize_cleaned6 by simp
  note w1 = cleaning_frame[OF a(1)] and w2 = cleaning_frame[OF a(2)]
  from w1 c have r: "snd (clean_data [listing6] 0) = Inr 1"
    and n: "fst (clean_data [listing6] 0) ! 1 = cleaned6" by simp_all
  from w1 have "take 1 (fst (clean_data [listing6] 0)) = [listing6]" by simp
  then have "take 1 (fst (clean_data [listing6] 0)) ! 0 = listing6" by simp
  then have n0: "fst (clean_data [listing6] 0) ! 0 = listing6" by simp
  from w2 t have r2: "snd (analyze_categories [listing6, cleaned6] 1) = None"
    and n2: "fst (analyze_categories [listing6, cleaned6] 1) ! 1 = tagged6" by simp_all
  from w2 have m0: "fst (analyze_categories [listing6, cleaned6] 1) ! 0 = listing6" by simp
  show ?thesis using n0 n r m0 n2 r2 by simp
qed

text \<open>
  C6 as stated fails for the category step: given the heap that holds the one table
  \<open>cleaned6\<close>, \<^verbatim>\<open>analyze_categories\<close> returns no table and the table it was given has
  become \<open>tagged6\<close>, with one more column.
\<close>

theorem category_step_mutates_counterexample:
  "fst (analyze_categories [cleaned6] 0) = [tagged6]
   \<and> snd (analyze_categories [cleaned6] 0) = None
   \<and> fst (analyze_categories [cleaned6] 0) ! 0 \<noteq> [cleaned6] ! 0"
proof -
  have a: "0 < length [cleaned6]" by simp
  have t: "categorize ([cleaned6] ! 0) = Inr tagged6" using categorize_cleaned6 by simp
  from analyze_categories_effect(3)[OF a t]
  have r: "snd (analyze_categories [cleaned6] 0) = None"
    and n: "fst (analyze_categories [cleaned6] 0) ! 0 = tagged6" by simp_all
  have "length (fst (analyze_categories [cleaned6] 0)) = 1"
    using analyze_categories_effect(1)[OF a] by simp
  with n have h: "fst (analyze_categories [cleaned6] 0) = [tagged6]"
    by (intro nth_equalityI) simp_all
  have "tagged6 \<noteq> cleaned6" by (simp add: tagged6_def)
  then show ?thesis using h r by simp
qed

subsection \<open>The loader\<close>

text \<open>
  C10.  Whatever \<^verbatim>\<open>read_csv\<close> does with the path: when it raises because the file
  is missing, unreadable or not parsable as a table, \<^verbatim>\<open>load_data\<close> returns
  \<^verbatim>\<open>None\<close> and prints a line with the path and the error text, and no exception
  leaves it; when it gives a table, \<^verbatim>\<open>load_data\<close> returns that table and prints
  the number of its rows.
\<close>

theorem load_data_outcomes:
  "(\<forall>e. read_csv file_path = Inl e \<and>
         cls e \<in> {FileNotFoundError, PermissionError, IsADirectoryError,
                  UnicodeDecodeError, ParserError, EmptyDataError} \<longrightarrow>
         load_data read_csv file_path =
           Inr (None, fail_mark @ '' Error al cargar '' @ file_path @ '': '' @ text_of e))
   \<and> (\<forall>e. read_csv file_path = Inl e \<and> derives_Exception (cls e) \<longrightarrow>
         (\<exists>msg. load_data read_csv file_path = Inr (None, msg)))
   \<and> (\<forall>df. read_csv file_path = Inr df \<longrightarrow>
         load_data read_csv file_path =
           Inr (Some df, ok_mark @ '' Dataset cargado correctamente. Filas: ''
                           @ show_nat (nrows df)))"
  by (auto simp: load_data_def)

theorem load_data_outcomes_witness:
  "load_data read_csv1 ''missing.csv'' =
     Inr (None, fail_mark @ '' Error al cargar missing.csv: [Errno 2] No such file or directory: missing.csv'')
   \<and> load_data read_csv1 ''data/laptop.csv'' =
     Inr (Some listing2, ok_mark @ '' Dataset cargado correctamente. Filas: 2'')"
proof -
  have m: "read_csv1 ''missing.csv'' =
      Inl \<lparr>cls = FileNotFoundError,
           text_of = ''[Errno 2] No such file or directory: missing.csv''\<rparr>"
    by (simp add: read_csv1_def)
  have l: "read_csv1 ''data/laptop.csv'' = Inr listing2" by (simp add: read_csv1_def)
  have n: "show_nat (nrows listing2) = ''2''"
    by (simp add: nrows_def listing2_def show_nat.simps digit_char_def)
  from load_data_outcomes[of read_csv1 "''missing.csv''"] m
  have a: "load_data read_csv1 ''missing.csv'' =
     Inr (None, fail_mark @ '' Error al cargar '' @ ''missing.csv'' @ '': ''
            @ ''[Errno 2] No such file or directory: missing.csv'')"
    by simp
  from load_data_outcomes[of read_csv1 "''data/laptop.csv''"] l
  have b: "load_data read_csv1 ''data/laptop.csv'' =
     Inr (Some listing2, ok_mark @ '' Dataset cargado correctamente. Filas: ''
            @ show_nat (nrows listing2))"
    by blast
  show ?thesis using a b n by simp
qed

end
